theory Spec2Isabelle
  imports Main
begin

section \<open>Constants of the platform and of scan.c\<close>

text \<open>
  \<^verbatim>\<open>#define MAXCODE 64\<close> and \<^verbatim>\<open>#define SCANPIN 25\<close> are taken from scan.c.
  The key codes and \<^verbatim>\<open>EV_KEY\<close> come from the Linux header
  \<^verbatim>\<open>linux/input-event-codes.h\<close>, \<^verbatim>\<open>INT_MAX\<close> from \<^verbatim>\<open>limits.h\<close>
  for a 32-bit \<^verbatim>\<open>int\<close>.
\<close>

definition MAXCODE :: int where "MAXCODE = 64"
definition SCANPIN :: int where "SCANPIN = 25"
definition INT_MAX :: int where "INT_MAX = 2147483647"

definition EV_KEY :: int where "EV_KEY = 1"

definition KEY_1 :: int where "KEY_1 = 2"
definition KEY_2 :: int where "KEY_2 = 3"
definition KEY_3 :: int where "KEY_3 = 4"
definition KEY_4 :: int where "KEY_4 = 5"
definition KEY_5 :: int where "KEY_5 = 6"
definition KEY_6 :: int where "KEY_6 = 7"
definition KEY_7 :: int where "KEY_7 = 8"
definition KEY_8 :: int where "KEY_8 = 9"
definition KEY_9 :: int where "KEY_9 = 10"
definition KEY_0 :: int where "KEY_0 = 11"
definition KEY_MINUS :: int where "KEY_MINUS = 12"
definition KEY_EQUAL :: int where "KEY_EQUAL = 13"
definition KEY_Q :: int where "KEY_Q = 16"
definition KEY_W :: int where "KEY_W = 17"
definition KEY_E :: int where "KEY_E = 18"
definition KEY_R :: int where "KEY_R = 19"
definition KEY_T :: int where "KEY_T = 20"
definition KEY_Y :: int where "KEY_Y = 21"
definition KEY_U :: int where "KEY_U = 22"
definition KEY_I :: int where "KEY_I = 23"
definition KEY_O :: int where "KEY_O = 24"
definition KEY_P :: int where "KEY_P = 25"
definition KEY_LEFTBRACE :: int where "KEY_LEFTBRACE = 26"
definition KEY_RIGHTBRACE :: int where "KEY_RIGHTBRACE = 27"
definition KEY_ENTER :: int where "KEY_ENTER = 28"
definition KEY_A :: int where "KEY_A = 30"
definition KEY_S :: int where "KEY_S = 31"
definition KEY_D :: int where "KEY_D = 32"
definition KEY_F :: int where "KEY_F = 33"
definition KEY_G :: int where "KEY_G = 34"
definition KEY_H :: int where "KEY_H = 35"
definition KEY_J :: int where "KEY_J = 36"
definition KEY_K :: int where "KEY_K = 37"
definition KEY_L :: int where "KEY_L = 38"
definition KEY_SEMICOLON :: int where "KEY_SEMICOLON = 39"
definition KEY_APOSTROPHE :: int where "KEY_APOSTROPHE = 40"
definition KEY_GRAVE :: int where "KEY_GRAVE = 41"
definition KEY_LEFTSHIFT :: int where "KEY_LEFTSHIFT = 42"
definition KEY_BACKSLASH :: int where "KEY_BACKSLASH = 43"
definition KEY_Z :: int where "KEY_Z = 44"
definition KEY_X :: int where "KEY_X = 45"
definition KEY_C :: int where "KEY_C = 46"
definition KEY_V :: int where "KEY_V = 47"
definition KEY_B :: int where "KEY_B = 48"
definition KEY_N :: int where "KEY_N = 49"
definition KEY_M :: int where "KEY_M = 50"
definition KEY_COMMA :: int where "KEY_COMMA = 51"
definition KEY_DOT :: int where "KEY_DOT = 52"
definition KEY_SLASH :: int where "KEY_SLASH = 53"
definition KEY_RIGHTSHIFT :: int where "KEY_RIGHTSHIFT = 54"
definition KEY_SPACE :: int where "KEY_SPACE = 57"

lemmas key_defs =
  KEY_1_def KEY_2_def KEY_3_def KEY_4_def KEY_5_def KEY_6_def KEY_7_def KEY_8_def
  KEY_9_def KEY_0_def KEY_MINUS_def KEY_EQUAL_def KEY_Q_def KEY_W_def KEY_E_def KEY_R_def
  KEY_T_def KEY_Y_def KEY_U_def KEY_I_def KEY_O_def KEY_P_def KEY_LEFTBRACE_def
  KEY_RIGHTBRACE_def KEY_ENTER_def KEY_A_def KEY_S_def KEY_D_def KEY_F_def KEY_G_def
  KEY_H_def KEY_J_def KEY_K_def KEY_L_def KEY_SEMICOLON_def KEY_APOSTROPHE_def
  KEY_GRAVE_def KEY_LEFTSHIFT_def KEY_BACKSLASH_def KEY_Z_def KEY_X_def KEY_C_def
  KEY_V_def KEY_B_def KEY_N_def KEY_M_def KEY_COMMA_def KEY_DOT_def KEY_SLASH_def
  KEY_RIGHTSHIFT_def KEY_SPACE_def

text \<open>The character \<^verbatim>\<open>'\0'\<close>, which \<^verbatim>\<open>keymap\<close> returns for "no mapping" and which
  ends a C string, and the line feed of \<^verbatim>\<open>printf("%s\n", code)\<close>.\<close>

definition NUL :: char where "NUL = CHR 0x00"
definition LF :: char where "LF = CHR 0x0A"

section \<open>keymap\<close>

text \<open>
  The two \<^verbatim>\<open>switch\<close> statements of \<^verbatim>\<open>keymap\<close>, as tables in the order of the source.
  The case labels of each switch are distinct, so the first match of \<open>map_of\<close> is the
  only one; \<^verbatim>\<open>default: return 0\<close> is the \<open>None\<close> case.
\<close>

definition shifted_cases :: "(int \<times> char) list" where
  "shifted_cases =
    [(KEY_1, CHR ''!''), (KEY_2, CHR ''@''), (KEY_3, CHR ''#''), (KEY_4, CHR ''$''),
     (KEY_5, CHR ''%''), (KEY_6, CHR ''^''), (KEY_7, CHR ''&''), (KEY_8, CHR ''*''),
     (KEY_9, CHR ''(''), (KEY_0, CHR '')''), (KEY_MINUS, CHR ''_''), (KEY_EQUAL, CHR ''+''),
     (KEY_Q, CHR ''Q''), (KEY_W, CHR ''W''), (KEY_E, CHR ''E''), (KEY_R, CHR ''R''),
     (KEY_T, CHR ''T''), (KEY_Y, CHR ''Y''), (KEY_U, CHR ''U''), (KEY_I, CHR ''I''),
     (KEY_O, CHR ''O''), (KEY_P, CHR ''P''), (KEY_LEFTBRACE, CHR ''{''),
     (KEY_RIGHTBRACE, CHR ''}''), (KEY_A, CHR ''A''), (KEY_S, CHR ''S''), (KEY_D, CHR ''D''),
     (KEY_F, CHR ''F''), (KEY_G, CHR ''G''), (KEY_H, CHR ''H''), (KEY_J, CHR ''J''),
     (KEY_K, CHR ''K''), (KEY_L, CHR ''L''), (KEY_SEMICOLON, CHR '':''),
     (KEY_APOSTROPHE, CHR 0x22), (KEY_GRAVE, CHR ''~''), (KEY_BACKSLASH, CHR ''|''),
     (KEY_Z, CHR ''Z''), (KEY_X, CHR ''X''), (KEY_C, CHR ''C''), (KEY_V, CHR ''V''),
     (KEY_B, CHR ''B''), (KEY_N, CHR ''N''), (KEY_M, CHR ''M''), (KEY_COMMA, CHR ''<''),
     (KEY_DOT, CHR ''>''), (KEY_SLASH, CHR ''?''), (KEY_SPACE, CHR '' '')]"

definition unshifted_cases :: "(int \<times> char) list" where
  "unshifted_cases =
    [(KEY_1, CHR ''1''), (KEY_2, CHR ''2''), (KEY_3, CHR ''3''), (KEY_4, CHR ''4''),
     (KEY_5, CHR ''5''), (KEY_6, CHR ''6''), (KEY_7, CHR ''7''), (KEY_8, CHR ''8''),
     (KEY_9, CHR ''9''), (KEY_0, CHR ''0''), (KEY_MINUS, CHR ''-''), (KEY_EQUAL, CHR ''=''),
     (KEY_Q, CHR ''q''), (KEY_W, CHR ''w''), (KEY_E, CHR ''e''), (KEY_R, CHR ''r''),
     (KEY_T, CHR ''t''), (KEY_Y, CHR ''y''), (KEY_U, CHR ''u''), (KEY_I, CHR ''i''),
     (KEY_O, CHR ''o''), (KEY_P, CHR ''p''), (KEY_LEFTBRACE, CHR ''[''),
     (KEY_RIGHTBRACE, CHR '']''), (KEY_A, CHR ''a''), (KEY_S, CHR ''s''), (KEY_D, CHR ''d''),
     (KEY_F, CHR ''f''), (KEY_G, CHR ''g''), (KEY_H, CHR ''h''), (KEY_J, CHR ''j''),
     (KEY_K, CHR ''k''), (KEY_L, CHR ''l''), (KEY_SEMICOLON, CHR '';''),
     (KEY_APOSTROPHE, CHR 0x27), (KEY_GRAVE, CHR 0x60), (KEY_BACKSLASH, CHR 0x5C),
     (KEY_Z, CHR ''z''), (KEY_X, CHR ''x''), (KEY_C, CHR ''c''), (KEY_V, CHR ''v''),
     (KEY_B, CHR ''b''), (KEY_N, CHR ''n''), (KEY_M, CHR ''m''), (KEY_COMMA, CHR '',''),
     (KEY_DOT, CHR ''.''), (KEY_SLASH, CHR ''/''), (KEY_SPACE, CHR '' '')]"

definition keymap :: "int \<Rightarrow> int \<Rightarrow> char" where
  "keymap code shift =
     (if shift \<noteq> 0
      then (case map_of shifted_cases code of Some c \<Rightarrow> c | None \<Rightarrow> NUL)
      else (case map_of unshifted_cases code of Some c \<Rightarrow> c | None \<Rightarrow> NUL))"

lemma case_labels_distinct:
  "distinct (map fst shifted_cases)" "distinct (map fst unshifted_cases)"
  by (simp_all add: shifted_cases_def unshifted_cases_def key_defs)

section \<open>The state of scan and its environment\<close>

text \<open>
  \<^verbatim>\<open>struct input_event\<close> of \<^verbatim>\<open>linux/input.h\<close>: \<^verbatim>\<open>type\<close> and \<^verbatim>\<open>code\<close> are unsigned
  16-bit, \<^verbatim>\<open>value\<close> is signed 32-bit; scan compares them with constants only, so they
  are integers here. The time stamp is never read by scan and is left out.
\<close>

record input_event =
  ev_type :: int
  ev_code :: int
  ev_value :: int

text \<open>
  What the device does is the input of the model. A call of \<^verbatim>\<open>poll\<close> returns a value
  and, when that is negative, sets \<^verbatim>\<open>errno\<close>. A call of \<^verbatim>\<open>read\<close> returns a value,
  sets \<^verbatim>\<open>errno\<close> when that is negative, and has written into \<^verbatim>\<open>keyevent\<close> when it is
  positive: the third component is the content of \<^verbatim>\<open>keyevent\<close> after such a call (the
  event for a full read, the partly overwritten buffer for a short one).
\<close>

datatype poll_ret = Poll_ret int int
datatype read_ret = Read_ret int int input_event

datatype level = LOW | HIGH

text \<open>The effects of scan on the outside, in the order they happen.\<close>

datatype effect =
    Open_device
  | Ioctl_EVIOCGRAB
  | WiringPiSetupGpio
  | PinMode_OUTPUT int
  | DigitalWrite int level
  | Poll int
  | Usleep int
  | Printf string
  | Fprintf_stderr string int

text \<open>
  The local variables of \<^verbatim>\<open>scan\<close>, \<^verbatim>\<open>errno\<close>, what the device will answer to the
  coming calls of \<^verbatim>\<open>poll\<close> and \<^verbatim>\<open>read\<close>, and the effects so far.
  \<open>Fprintf_stderr m e\<close> stands for the message \<open>m\<close> followed by \<^verbatim>\<open>strerror(e)\<close>.
  When \<open>polls\<close> is used up the device stays silent: \<^verbatim>\<open>poll\<close> times out (returns 0), and
  when \<open>reads\<close> is used up \<^verbatim>\<open>read\<close> blocks for ever.
\<close>

record scan_state =
  code :: "char list"
  keyevent :: input_event
  err :: int
  readstatus :: int
  codecounter :: int
  trycount :: int
  shift :: int
  errno :: int
  polls :: "poll_ret list"
  reads :: "read_ret list"
  trace :: "effect list"

section \<open>The statements of scan\<close>

definition emit :: "effect \<Rightarrow> scan_state \<Rightarrow> scan_state" where
  "emit e st = st\<lparr>trace := trace st @ [e]\<rparr>"

definition digitalWrite :: "int \<Rightarrow> level \<Rightarrow> scan_state \<Rightarrow> scan_state" where
  "digitalWrite pin l st = emit (DigitalWrite pin l) st"

definition usleep :: "int \<Rightarrow> scan_state \<Rightarrow> scan_state" where
  "usleep us st = emit (Usleep us) st"

text \<open>\<^verbatim>\<open>err = poll(&mypoll, 1, 800)\<close>\<close>

definition poll :: "scan_state \<Rightarrow> scan_state" where
  "poll st =
     (case polls st of
        [] \<Rightarrow> emit (Poll 800) (st\<lparr>err := 0\<rparr>)
      | Poll_ret r e # ps \<Rightarrow>
          emit (Poll 800)
            (st\<lparr>err := r, errno := (if r < 0 then e else errno st), polls := ps\<rparr>))"

text \<open>\<^verbatim>\<open>readstatus = read(scanfd, &keyevent, sizeof(keyevent))\<close>; \<open>None\<close> when the call
  never returns.\<close>

definition do_read :: "scan_state \<Rightarrow> scan_state option" where
  "do_read st =
     (case reads st of
        [] \<Rightarrow> None
      | Read_ret r e buf # rs \<Rightarrow>
          Some (st\<lparr>readstatus := r,
                  keyevent := (if 0 < r then buf else keyevent st),
                  errno := (if r < 0 then e else errno st),
                  reads := rs\<rparr>))"

text \<open>A store \<^verbatim>\<open>code[i] = c\<close> into the array; outside the array it is undefined
  behaviour in C, \<open>None\<close> here.\<close>

definition store :: "char list \<Rightarrow> int \<Rightarrow> char \<Rightarrow> char list option" where
  "store a i c = (if 0 \<le> i \<and> i < int (length a) then Some (a[nat i := c]) else None)"

datatype flow = Continue | Break | Out_of_bounds

text \<open>The body of the inner \<^verbatim>\<open>while\<close> loop (lines 197 to 220), on the event in
  \<^verbatim>\<open>keyevent\<close>.\<close>

definition is_shift_key :: "int \<Rightarrow> bool" where
  "is_shift_key c = (c = KEY_LEFTSHIFT \<or> c = KEY_RIGHTSHIFT)"

definition process_event :: "scan_state \<Rightarrow> flow \<times> scan_state" where
  "process_event st =
     (let ev = keyevent st in
      if ev_type ev = EV_KEY then
        if ev_value ev = 0 \<and> is_shift_key (ev_code ev) then
          (Continue, st\<lparr>shift := 0\<rparr>)
        else if ev_value ev = 1 then
          if codecounter st = MAXCODE - 1 \<or> ev_code ev = KEY_ENTER then
            (case store (code st) (codecounter st) NUL of
               None \<Rightarrow> (Out_of_bounds, st)
             | Some a \<Rightarrow> (Break, st\<lparr>code := a\<rparr>))
          else if is_shift_key (ev_code ev) then
            (Continue, st\<lparr>shift := 1\<rparr>)
          else if keymap (ev_code ev) (shift st) \<noteq> NUL then
            (case store (code st) (codecounter st) (keymap (ev_code ev) (shift st)) of
               None \<Rightarrow> (Out_of_bounds, st)
             | Some a \<Rightarrow> (Continue, st\<lparr>code := a, codecounter := codecounter st + 1\<rparr>))
          else (Continue, st)
        else (Continue, st)
      else (Continue, st))"

lemma process_event_reads: "reads (snd (process_event st)) = reads st"
  by (simp add: process_event_def Let_def split: option.split)

lemma read_loop_decreases:
  assumes "do_read st = Some st1" and "(fl, st2) = process_event st1"
  shows "length (reads st2) < length (reads st)"
proof -
  from assms(1) have "length (reads st1) < length (reads st)"
    by (auto simp: do_read_def split: list.splits read_ret.splits)
  moreover from assms(2) have "reads st2 = reads st1"
    using process_event_reads [of st1] by (metis snd_conv)
  ultimately show ?thesis by simp
qed

datatype loop_exit = Exited | Blocked | Faulted

text \<open>The inner loop \<^verbatim>\<open>while ((readstatus = read(...)) >= 0) { ... }\<close>. It is left by
  \<^verbatim>\<open>break\<close> or by a negative \<^verbatim>\<open>readstatus\<close> (\<open>Exited\<close>); it does not return when a
  \<^verbatim>\<open>read\<close> blocks for ever (\<open>Blocked\<close>).\<close>

function read_loop :: "scan_state \<Rightarrow> loop_exit \<times> scan_state" where
  "read_loop st =
     (case do_read st of
        None \<Rightarrow> (Blocked, st)
      | Some st1 \<Rightarrow>
          if readstatus st1 \<ge> 0 then
            (case process_event st1 of
               (Continue, st2) \<Rightarrow> read_loop st2
             | (Break, st2) \<Rightarrow> (Exited, st2)
             | (Out_of_bounds, st2) \<Rightarrow> (Faulted, st2))
          else (Exited, st1))"
  by pat_completeness auto
termination
  by (relation "measure (\<lambda>st. length (reads st))") (simp_all add: read_loop_decreases)

declare read_loop.simps [simp del]


text \<open>What the inner loop leaves alone.\<close>

lemma process_event_frame:
  "trace (snd (process_event st)) = trace st"
  "trycount (snd (process_event st)) = trycount st"
  "err (snd (process_event st)) = err st"
  "polls (snd (process_event st)) = polls st"
  "errno (snd (process_event st)) = errno st"
  "readstatus (snd (process_event st)) = readstatus st"
  by (simp_all add: process_event_def Let_def split: option.split)

lemma do_read_frame:
  assumes "do_read st = Some st1"
  shows "trace st1 = trace st" "trycount st1 = trycount st" "err st1 = err st"
    "polls st1 = polls st" "code st1 = code st" "codecounter st1 = codecounter st"
    "shift st1 = shift st"
  using assms by (auto simp: do_read_def split: list.splits read_ret.splits)

lemma read_loop_frame:
  "trace (snd (read_loop st)) = trace st \<and> trycount (snd (read_loop st)) = trycount st \<and>
   err (snd (read_loop st)) = err st \<and> polls (snd (read_loop st)) = polls st"
proof (induction st rule: read_loop.induct)
  case (1 st)
  show ?case
  proof (cases "do_read st")
    case None
    then show ?thesis by (simp add: read_loop.simps [of st])
  next
    case (Some st1)
    note fr = do_read_frame [OF Some]
    show ?thesis
    proof (cases "readstatus st1 \<ge> 0")
      case False
      with Some fr show ?thesis by (simp add: read_loop.simps [of st])
    next
      case True
      obtain fl st2 where p: "process_event st1 = (fl, st2)" by (cases "process_event st1")
      have fr2: "trace st2 = trace st1" "trycount st2 = trycount st1" "err st2 = err st1"
        "polls st2 = polls st1"
        using process_event_frame [of st1] p by simp_all
      show ?thesis
      proof (cases fl)
        case Continue
        with "1.IH" [OF Some True p [symmetric]] Some True p fr fr2 show ?thesis
          by (simp add: read_loop.simps [of st])
      next
        case Break
        with Some True p fr fr2 show ?thesis by (simp add: read_loop.simps [of st])
      next
        case Out_of_bounds
        with Some True p fr fr2 show ?thesis by (simp add: read_loop.simps [of st])
      qed
    qed
  qed
qed

section \<open>The outer loop\<close>

text \<open>
  \<^verbatim>\<open>readstatus < sizeof(keyevent)\<close> compares an \<^verbatim>\<open>int\<close> with a \<^verbatim>\<open>size_t\<close>: by the usual
  arithmetic conversions of C the \<^verbatim>\<open>int\<close> is converted to the unsigned type, that is
  reduced modulo \<open>2 ^ 32\<close> on the 32-bit ARM Linux of the Raspberry Pi, where
  \<^verbatim>\<open>struct input_event\<close> has 16 bytes.
\<close>

definition size_t_of_int :: "int \<Rightarrow> int" where
  "size_t_of_int i = i mod 2 ^ 32"

definition sizeof_keyevent :: int where
  "sizeof_keyevent = 16"

text \<open>\<^verbatim>\<open>printf("%s\n", code)\<close> prints the bytes before the first \<^verbatim>\<open>'\0'\<close>; with none in
  the array it reads past its end.\<close>

definition c_string :: "char list \<Rightarrow> string option" where
  "c_string a = (if NUL \<in> set a then Some (takeWhile (\<lambda>c. c \<noteq> NUL) a) else None)"

definition printf_code :: "scan_state \<Rightarrow> scan_state option" where
  "printf_code st =
     (case c_string (code st) of
        None \<Rightarrow> None
      | Some s \<Rightarrow> Some (emit (Printf (s @ [LF])) st))"

definition fprintf_stderr :: "string \<Rightarrow> scan_state \<Rightarrow> scan_state" where
  "fprintf_stderr msg st = emit (Fprintf_stderr msg (errno st)) st"

text \<open>The end of the loop body: \<^verbatim>\<open>digitalWrite(SCANPIN, LOW); usleep(200000); trycount ++;\<close>\<close>

definition restart :: "scan_state \<Rightarrow> scan_state" where
  "restart st =
     (let st1 = usleep 200000 (digitalWrite SCANPIN LOW st)
      in st1\<lparr>trycount := trycount st1 + 1\<rparr>)"

datatype outcome =
    Returns int
  | Blocks
  | Store_out_of_bounds
  | Printf_unterminated
  | Atoi_out_of_range

text \<open>
  One pass through the body of \<^verbatim>\<open>while (trycount < tries && !err)\<close>: \<open>Inl\<close> when the
  function is left from inside the body (or never gets out of it), \<open>Inr\<close> with the state
  at the end of the body.
\<close>

definition scan_body :: "scan_state \<Rightarrow> (outcome \<times> scan_state) + scan_state" where
  "scan_body st =
     (let st1 = poll (digitalWrite SCANPIN HIGH st) in
      if err st1 \<noteq> 0 then
        (case read_loop st1 of
           (Blocked, st2) \<Rightarrow> Inl (Blocks, st2)
         | (Faulted, st2) \<Rightarrow> Inl (Store_out_of_bounds, st2)
         | (Exited, st2) \<Rightarrow>
             if size_t_of_int (readstatus st2) < sizeof_keyevent then
               Inl (Returns (- 1),
                    digitalWrite SCANPIN LOW (fprintf_stderr ''Error occurred scanning: '' st2))
             else
               (case printf_code st2 of
                  None \<Rightarrow> Inl (Printf_unterminated, st2)
                | Some st3 \<Rightarrow> Inr (restart st3)))
      else if err st1 < 0 then
        Inl (Returns (- 1),
             digitalWrite SCANPIN LOW (fprintf_stderr ''Error occurred polling: '' st1))
      else Inr (restart st1))"

lemma emit_frame [simp]:
  "trycount (emit e st) = trycount st" "err (emit e st) = err st"
  "trace (emit e st) = trace st @ [e]" "polls (emit e st) = polls st"
  "reads (emit e st) = reads st" "code (emit e st) = code st"
  "codecounter (emit e st) = codecounter st" "shift (emit e st) = shift st"
  "errno (emit e st) = errno st" "readstatus (emit e st) = readstatus st"
  "keyevent (emit e st) = keyevent st"
  by (simp_all add: emit_def)

lemma poll_trycount [simp]: "trycount (poll st) = trycount st"
  by (simp add: poll_def split: list.split poll_ret.split)

lemma poll_trace [simp]: "trace (poll st) = trace st @ [Poll 800]"
  by (simp add: poll_def split: list.split poll_ret.split)

lemma restart_simps [simp]:
  "trycount (restart st) = trycount st + 1"
  "err (restart st) = err st"
  "polls (restart st) = polls st"
  "trace (restart st) = trace st @ [DigitalWrite SCANPIN LOW, Usleep 200000]"
  by (simp_all add: restart_def Let_def usleep_def digitalWrite_def)

lemma printf_code_frame:
  assumes "printf_code st = Some st'"
  shows "trycount st' = trycount st" "err st' = err st" "polls st' = polls st"
  using assms by (auto simp: printf_code_def split: option.splits)

lemma scan_body_Inr:
  assumes "scan_body st = Inr st'"
  shows "trycount st' = trycount st + 1"
proof -
  let ?st1 = "poll (digitalWrite SCANPIN HIGH st)"
  have t1: "trycount ?st1 = trycount st" by (simp add: digitalWrite_def)
  show ?thesis
  proof (cases "err ?st1 = 0")
    case True
    with assms have "st' = restart ?st1" by (simp add: scan_body_def Let_def)
    with t1 show ?thesis by simp
  next
    case False
    obtain ex st2 where r: "read_loop ?st1 = (ex, st2)" by (cases "read_loop ?st1")
    have t2: "trycount st2 = trycount ?st1" using read_loop_frame [of ?st1] r by simp
    from assms False r obtain st3 where "printf_code st2 = Some st3" "st' = restart st3"
      by (auto simp: scan_body_def Let_def split: loop_exit.splits if_splits option.splits)
    with t1 t2 printf_code_frame(1) [of st2 st3] show ?thesis by simp
  qed
qed

text \<open>\<^verbatim>\<open>while (trycount < tries && !err) { ... } return 0;\<close>\<close>

function scan_loop :: "int \<Rightarrow> scan_state \<Rightarrow> outcome \<times> scan_state" where
  "scan_loop tries st =
     (if trycount st < tries \<and> err st = 0 then
        (case scan_body st of
           Inl res \<Rightarrow> res
         | Inr st' \<Rightarrow> scan_loop tries st')
      else (Returns 0, st))"
  by pat_completeness auto
termination
  by (relation "measure (\<lambda>(tries, st). nat (tries - trycount st))")
    (auto dest: scan_body_Inr)

declare scan_loop.simps [simp del]

text \<open>
  What \<^verbatim>\<open>scan\<close> finds when it starts: the content of the stack where \<^verbatim>\<open>code\<close> and
  \<^verbatim>\<open>keyevent\<close> are allocated (neither is initialised), the value of \<^verbatim>\<open>errno\<close> after the
  unchecked calls of \<^verbatim>\<open>open\<close>, \<^verbatim>\<open>fdopen\<close> and \<^verbatim>\<open>ioctl\<close>, and the answers of the device.
\<close>

record world =
  stack_code :: "nat \<Rightarrow> char"
  stack_keyevent :: input_event
  setup_errno :: int
  poll_answers :: "poll_ret list"
  read_answers :: "read_ret list"

definition setup_trace :: "effect list" where
  "setup_trace = [Open_device, Ioctl_EVIOCGRAB, WiringPiSetupGpio, PinMode_OUTPUT SCANPIN]"

definition init_state :: "world \<Rightarrow> scan_state" where
  "init_state w =
     \<lparr>code = map (stack_code w) [0..<nat MAXCODE],
      keyevent = stack_keyevent w,
      err = 0, readstatus = 0, codecounter = 0, trycount = 0, shift = 0,
      errno = setup_errno w,
      polls = poll_answers w,
      reads = read_answers w,
      trace = setup_trace\<rparr>"

definition scan :: "int \<Rightarrow> world \<Rightarrow> outcome \<times> scan_state" where
  "scan tries w = scan_loop tries (init_state w)"

section \<open>main\<close>

text \<open>
  \<^verbatim>\<open>atoi\<close> of the C library: white space is skipped, then an optional sign and the
  longest run of decimal digits are read; with no digits the value is 0. The C standard
  leaves the behaviour undefined when the value is not representable as an \<^verbatim>\<open>int\<close>.
\<close>

definition isspace :: "char \<Rightarrow> bool" where
  "isspace c = (c \<in> set [CHR '' '', CHR 0x09, CHR 0x0A, CHR 0x0B, CHR 0x0C, CHR 0x0D])"

definition digit_value :: "char \<Rightarrow> int option" where
  "digit_value c =
     (let n = (of_char c :: nat) in if 48 \<le> n \<and> n \<le> 57 then Some (int n - 48) else None)"

fun digits :: "int \<Rightarrow> string \<Rightarrow> int" where
  "digits acc [] = acc"
| "digits acc (c # cs) =
     (case digit_value c of None \<Rightarrow> acc | Some d \<Rightarrow> digits (acc * 10 + d) cs)"

definition atoi :: "string \<Rightarrow> int option" where
  "atoi s =
     (let t = dropWhile isspace s;
          n = (case t of
                 [] \<Rightarrow> 0
               | c # r \<Rightarrow>
                   if c = CHR ''-'' then - digits 0 r
                   else if c = CHR ''+'' then digits 0 r
                   else digits 0 t)
      in if - INT_MAX - 1 \<le> n \<and> n \<le> INT_MAX then Some n else None)"

text \<open>\<^verbatim>\<open>main\<close>: \<open>argv\<close> is the argument vector, \<^verbatim>\<open>argc\<close> its length. The result is what
  \<^verbatim>\<open>main\<close> returns and the effects of the run.\<close>

definition finish :: "outcome \<times> scan_state \<Rightarrow> outcome \<times> effect list" where
  "finish r = (fst r, trace (snd r))"

definition main :: "string list \<Rightarrow> world \<Rightarrow> outcome \<times> effect list" where
  "main argv w =
     (if length argv = 1 then finish (scan INT_MAX w)
      else if length argv = 2 then
        (case atoi (argv ! 1) of
           None \<Rightarrow> (Atoi_out_of_range, [])
         | Some n \<Rightarrow> finish (scan n w))
      else finish (scan INT_MAX w))"

section \<open>Events, example inputs and the invariant of the buffer\<close>

text \<open>A key event (\<^verbatim>\<open>type == EV_KEY\<close>) with its code and value (0 release, 1 press,
  2 auto-repeat), and a call of \<^verbatim>\<open>read\<close> that delivers one whole event.\<close>

definition key_event :: "int \<Rightarrow> int \<Rightarrow> input_event" where
  "key_event c v = \<lparr>ev_type = EV_KEY, ev_code = c, ev_value = v\<rparr>"

definition full_read :: "input_event \<Rightarrow> read_ret" where
  "full_read ev = Read_ret sizeof_keyevent 0 ev"

text \<open>The characters stored so far, \<^verbatim>\<open>code[0 .. codecounter - 1]\<close>.\<close>

definition accumulated :: "scan_state \<Rightarrow> string" where
  "accumulated st = take (nat (codecounter st)) (code st)"

text \<open>The index stays inside the array of \<^verbatim>\<open>MAXCODE\<close> elements, one below its end at most,
  and the shift flag is 0 or 1.\<close>

definition buffer_inv :: "scan_state \<Rightarrow> bool" where
  "buffer_inv st =
     (length (code st) = nat MAXCODE \<and> 0 \<le> codecounter st \<and> codecounter st \<le> MAXCODE - 1 \<and>
      (shift st = 0 \<or> shift st = 1))"


text \<open>Inputs for the examples: a stack content, a list of answers of \<^verbatim>\<open>poll\<close> and a list
  of answers of \<^verbatim>\<open>read\<close>.\<close>

definition example_world :: "(nat \<Rightarrow> char) \<Rightarrow> poll_ret list \<Rightarrow> read_ret list \<Rightarrow> world" where
  "example_world stack ps rs =
     \<lparr>stack_code = stack,
      stack_keyevent = \<lparr>ev_type = 0, ev_code = 0, ev_value = 0\<rparr>,
      setup_errno = 0, poll_answers = ps, read_answers = rs\<rparr>"

definition garbage :: "nat \<Rightarrow> char" where
  "garbage i = (if i < 3 then CHR ''?'' else NUL)"

definition w9 :: world where
  "w9 = example_world garbage [Poll_ret 1 0]
          (map full_read [key_event KEY_LEFTSHIFT 1, key_event KEY_A 1, key_event KEY_ENTER 1])"

definition st10 :: scan_state where
  "st10 = init_state (example_world garbage [] [full_read (key_event KEY_A 2)])"


section \<open>The invariant is kept\<close>

lemma read_loop_rule:
  assumes "P st"
    and rd: "\<And>s s1. P s \<Longrightarrow> do_read s = Some s1 \<Longrightarrow> P s1"
    and pe: "\<And>s. P s \<Longrightarrow> P (snd (process_event s)) \<and> fst (process_event s) \<noteq> Out_of_bounds"
  shows "P (snd (read_loop st)) \<and> fst (read_loop st) \<noteq> Faulted"
  using assms(1)
proof (induction st rule: read_loop.induct)
  case (1 st)
  show ?case
  proof (cases "do_read st")
    case None
    with "1.prems" show ?thesis by (simp add: read_loop.simps [of st])
  next
    case (Some st1)
    have P1: "P st1" using rd [OF "1.prems" Some] .
    show ?thesis
    proof (cases "readstatus st1 \<ge> 0")
      case False
      with Some P1 show ?thesis by (simp add: read_loop.simps [of st])
    next
      case True
      obtain fl st2 where p: "process_event st1 = (fl, st2)" by (cases "process_event st1")
      from pe [OF P1] p have P2: "P st2" and nf: "fl \<noteq> Out_of_bounds" by simp_all
      show ?thesis
      proof (cases fl)
        case Continue
        with "1.IH" [OF Some True p [symmetric] _ P2] Some True p show ?thesis
          by (simp add: read_loop.simps [of st])
      next
        case Break
        with Some True p P2 show ?thesis by (simp add: read_loop.simps [of st])
      next
        case Out_of_bounds
        with nf show ?thesis by simp
      qed
    qed
  qed
qed

lemma process_event_inv:
  assumes "buffer_inv st"
  shows "buffer_inv (snd (process_event st)) \<and> fst (process_event st) \<noteq> Out_of_bounds"
  using assms
  by (auto simp: process_event_def Let_def buffer_inv_def store_def MAXCODE_def)

lemma do_read_inv:
  assumes "buffer_inv st" "do_read st = Some st1"
  shows "buffer_inv st1"
  using assms(1) do_read_frame [OF assms(2)] by (simp add: buffer_inv_def)

lemma read_loop_inv:
  assumes "buffer_inv st"
  shows "buffer_inv (snd (read_loop st)) \<and> fst (read_loop st) \<noteq> Faulted"
  using assms by (rule read_loop_rule) (auto intro: do_read_inv dest: process_event_inv)

lemma buffer_inv_frame:
  assumes "code st' = code st" "codecounter st' = codecounter st" "shift st' = shift st"
  shows "buffer_inv st' = buffer_inv st"
  using assms by (simp add: buffer_inv_def)

lemma poll_frame [simp]:
  "code (poll st) = code st" "codecounter (poll st) = codecounter st" "shift (poll st) = shift st"
  "reads (poll st) = reads st" "readstatus (poll st) = readstatus st"
  by (simp_all add: poll_def split: list.split poll_ret.split)

lemma restart_frame [simp]:
  "code (restart st) = code st" "codecounter (restart st) = codecounter st"
  "shift (restart st) = shift st"
  by (simp_all add: restart_def Let_def usleep_def digitalWrite_def)

lemma printf_code_buffer:
  assumes "printf_code st = Some st'"
  shows "code st' = code st" "codecounter st' = codecounter st" "shift st' = shift st"
  using assms by (auto simp: printf_code_def split: option.splits)

lemma scan_body_inv:
  assumes "buffer_inv st"
  shows "case scan_body st of
           Inl (out, st') \<Rightarrow> buffer_inv st' \<and> out \<noteq> Store_out_of_bounds
         | Inr st' \<Rightarrow> buffer_inv st'"
proof -
  let ?st1 = "poll (digitalWrite SCANPIN HIGH st)"
  have "buffer_inv ?st1 = buffer_inv st"
    by (rule buffer_inv_frame) (simp_all add: digitalWrite_def)
  with assms have i1: "buffer_inv ?st1" by simp
  obtain ex st2 where r: "read_loop ?st1 = (ex, st2)" by (cases "read_loop ?st1")
  from read_loop_inv [OF i1] r have i2: "buffer_inv st2" and nf: "ex \<noteq> Faulted" by simp_all
  have i3: "buffer_inv (digitalWrite SCANPIN LOW (fprintf_stderr m s)) = buffer_inv s" for m s
    by (rule buffer_inv_frame) (simp_all add: digitalWrite_def fprintf_stderr_def)
  have i4: "buffer_inv (restart s) = buffer_inv s" for s
    by (rule buffer_inv_frame) simp_all
  have i5: "printf_code st2 = Some s \<Longrightarrow> buffer_inv s" for s
    using i2 printf_code_buffer [of st2 s] by (simp add: buffer_inv_frame [of s st2])
  show ?thesis
    using i1 i2 nf r i3 i4 i5
    by (cases ex) (auto simp: scan_body_def Let_def split: option.split)
qed

lemma scan_loop_inv:
  assumes "buffer_inv st"
  shows "buffer_inv (snd (scan_loop tries st)) \<and> fst (scan_loop tries st) \<noteq> Store_out_of_bounds"
  using assms
proof (induction tries st rule: scan_loop.induct)
  case (1 tries st)
  show ?case
  proof (cases "trycount st < tries \<and> err st = 0")
    case False
    then have "scan_loop tries st = (Returns 0, st)"
      by (subst scan_loop.simps) auto
    with "1.prems" show ?thesis by simp
  next
    case True
    show ?thesis
    proof (cases "scan_body st")
      case (Inl res)
      with scan_body_inv [OF "1.prems"] True show ?thesis
        by (cases res) (simp add: scan_loop.simps [of tries st])
    next
      case (Inr st')
      with scan_body_inv [OF "1.prems"] have "buffer_inv st'" by simp
      from "1.IH" [OF True Inr this] True Inr show ?thesis
        by (simp add: scan_loop.simps [of tries st])
    qed
  qed
qed

lemma init_state_inv: "buffer_inv (init_state w)"
  by (simp add: buffer_inv_def init_state_def MAXCODE_def)


section \<open>The bounds of the buffer, and the events that change nothing\<close>

text \<open>
  C9. At every point of the event processing the character count is between 0 and
  \<^verbatim>\<open>MAXCODE - 1\<close> and the buffer has \<^verbatim>\<open>MAXCODE\<close> elements, so each store into
  \<^verbatim>\<open>code\<close> (the terminating \<^verbatim>\<open>'\0'\<close> included) is inside the array; the shift flag starts
  at 0 and is 0 or 1 at every event. The invariant holds in the initial state, is kept
  by the processing of one event, by the whole inner loop (on every list of reads, so
  after every prefix of one) and by \<^verbatim>\<open>scan\<close>, and no store is out of bounds.
\<close>

theorem buffer_bounds:
  "buffer_inv (init_state w) \<and> shift (init_state w) = 0 \<and> codecounter (init_state w) = 0 \<and>
   (buffer_inv st \<longrightarrow>
      buffer_inv (snd (process_event st)) \<and> fst (process_event st) \<noteq> Out_of_bounds) \<and>
   (buffer_inv st \<longrightarrow> buffer_inv (snd (read_loop st)) \<and> fst (read_loop st) \<noteq> Faulted) \<and>
   buffer_inv (snd (scan tries w)) \<and> fst (scan tries w) \<noteq> Store_out_of_bounds"
  using init_state_inv [of w] process_event_inv [of st] read_loop_inv [of st]
    scan_loop_inv [OF init_state_inv, of tries w]
  by (simp add: scan_def init_state_def)


theorem buffer_bounds_witness:
  "buffer_inv (init_state w9) \<and>
   buffer_inv (snd (process_event (init_state w9))) \<and>
   fst (process_event (init_state w9)) \<noteq> Out_of_bounds \<and>
   buffer_inv (snd (read_loop (init_state w9))) \<and> fst (read_loop (init_state w9)) \<noteq> Faulted \<and>
   buffer_inv (snd (scan 2 w9)) \<and> fst (scan 2 w9) = Returns 0"
proof -
  have "fst (scan 2 w9) = Returns 0" by code_simp
  with buffer_bounds [of w9 "init_state w9" 2] show ?thesis by simp
qed


text \<open>
  C10. A key event whose value is neither 0 nor 1 (value 2, the auto-repeat of Linux, in
  particular) and a release of a key that is not a shift key leave the buffer, the
  character count and the shift flag as they are, and the loop goes on reading.
\<close>

theorem ignored_events_change_nothing:
  assumes "reads st = Read_ret r e ev # rs" and "0 < r"
    and "(ev_value ev \<noteq> 0 \<and> ev_value ev \<noteq> 1) \<or> (ev_value ev = 0 \<and> \<not> is_shift_key (ev_code ev))"
  shows "\<exists>st1. do_read st = Some st1 \<and> keyevent st1 = ev \<and> process_event st1 = (Continue, st1) \<and>
           code st1 = code st \<and> codecounter st1 = codecounter st \<and> shift st1 = shift st"
  using assms by (auto simp: do_read_def process_event_def Let_def)

theorem ignored_events_change_nothing_witness:
  "reads st10 = [Read_ret sizeof_keyevent 0 (key_event KEY_A 2)] \<and>
   (\<exists>st1. do_read st10 = Some st1 \<and> keyevent st1 = key_event KEY_A 2 \<and>
      process_event st1 = (Continue, st1) \<and>
      code st1 = code st10 \<and> codecounter st1 = codecounter st10 \<and> shift st1 = shift st10)"
proof -
  have h1: "reads st10 = Read_ret sizeof_keyevent 0 (key_event KEY_A 2) # []"
    by (simp add: st10_def init_state_def example_world_def full_read_def)
  have h2: "0 < sizeof_keyevent" by (simp add: sizeof_keyevent_def)
  have h3: "(ev_value (key_event KEY_A 2) \<noteq> 0 \<and> ev_value (key_event KEY_A 2) \<noteq> 1) \<or>
    (ev_value (key_event KEY_A 2) = 0 \<and> \<not> is_shift_key (ev_code (key_event KEY_A 2)))"
    by (simp add: key_event_def)
  from ignored_events_change_nothing [OF h1 h2 h3] h1 show ?thesis by simp
qed

section \<open>A device that is never ready\<close>

text \<open>The return value of a call of \<^verbatim>\<open>poll\<close>, the effects of one try that times out, and
  a device whose every \<^verbatim>\<open>poll\<close> times out.\<close>

fun poll_value :: "poll_ret \<Rightarrow> int" where
  "poll_value (Poll_ret r e) = r"

definition timed_out_try :: "effect list" where
  "timed_out_try =
     [DigitalWrite SCANPIN HIGH, Poll 800, DigitalWrite SCANPIN LOW, Usleep 200000]"

definition never_ready :: "poll_ret list \<Rightarrow> bool" where
  "never_ready ps = list_all (\<lambda>p. poll_value p = 0) ps"

lemma poll_never_ready:
  assumes "never_ready (polls st)"
  shows "err (poll st) = 0 \<and> never_ready (polls (poll st))"
  using assms by (cases "polls st") (auto simp: poll_def never_ready_def split: poll_ret.split)

lemma scan_body_timeout:
  assumes "err (poll (digitalWrite SCANPIN HIGH st)) = 0"
  shows "scan_body st = Inr (restart (poll (digitalWrite SCANPIN HIGH st)))"
  using assms by (simp add: scan_body_def Let_def)

lemma scan_loop_timeouts:
  assumes "err st = 0" and "never_ready (polls st)"
  shows "fst (scan_loop tries st) = Returns 0 \<and>
         trace (snd (scan_loop tries st)) =
           trace st @ concat (replicate (nat (tries - trycount st)) timed_out_try)"
  using assms
proof (induction tries st rule: scan_loop.induct)
  case (1 tries st)
  show ?case
  proof (cases "trycount st < tries")
    case False
    then have "scan_loop tries st = (Returns 0, st)"
      by (subst scan_loop.simps) auto
    with False show ?thesis by simp
  next
    case True
    let ?st1 = "poll (digitalWrite SCANPIN HIGH st)"
    let ?st' = "restart ?st1"
    have nr: "never_ready (polls (digitalWrite SCANPIN HIGH st))"
      using "1.prems"(2) by (simp add: digitalWrite_def)
    from poll_never_ready [OF nr] have e1: "err ?st1 = 0" and n1: "never_ready (polls ?st1)"
      by simp_all
    have b: "scan_body st = Inr ?st'" using scan_body_timeout [OF e1] .
    have e': "err ?st' = 0" and n': "never_ready (polls ?st')" using e1 n1 by simp_all
    have t': "trycount ?st' = trycount st + 1" by (simp add: digitalWrite_def)
    have tr': "trace ?st' = trace st @ timed_out_try"
      by (simp add: digitalWrite_def timed_out_try_def)
    have c: "trycount st < tries \<and> err st = 0" using True "1.prems"(1) by simp
    have unf: "scan_loop tries st = scan_loop tries ?st'"
      using c b by (subst scan_loop.simps) simp
    have n: "nat (tries - trycount st) = Suc (nat (tries - trycount ?st'))"
      using True t' by simp
    from "1.IH" [OF c b e' n'] show ?thesis
      by (simp add: unf tr' n del: restart_simps)
  qed
qed

lemma count_list_concat_replicate:
  "count_list (concat (replicate n xs)) x = n * count_list xs x"
  by (induction n) simp_all

definition is_printf :: "effect \<Rightarrow> bool" where
  "is_printf e = (case e of Printf s \<Rightarrow> True | _ \<Rightarrow> False)"

text \<open>
  C8. With a try budget of \<open>N\<close> and a device that is never ready, \<^verbatim>\<open>scan\<close> returns 0 and
  its effects are the set-up followed by \<open>N\<close> times: pin HIGH, the wait of 800 ms, pin LOW,
  the sleep of 200 ms. So there are exactly \<open>N\<close> waits and nothing is printed to
  standard output.
\<close>

theorem retry_exhaustion:
  assumes "never_ready (poll_answers w)"
  shows "fst (scan N w) = Returns 0 \<and>
         trace (snd (scan N w)) = setup_trace @ concat (replicate (nat N) timed_out_try) \<and>
         count_list (trace (snd (scan N w))) (Poll 800) = nat N \<and>
         filter is_printf (trace (snd (scan N w))) = []"
proof -
  have "err (init_state w) = 0" "never_ready (polls (init_state w))"
    "trace (init_state w) = setup_trace" "trycount (init_state w) = 0"
    using assms by (simp_all add: init_state_def)
  from scan_loop_timeouts [OF this(1,2), of N] this(3,4)
  have r: "fst (scan N w) = Returns 0"
    and t: "trace (snd (scan N w)) = setup_trace @ concat (replicate (nat N) timed_out_try)"
    by (simp_all add: scan_def)
  have c: "count_list (trace (snd (scan N w))) (Poll 800) = nat N"
    by (simp add: t count_list_concat_replicate)
      (simp add: setup_trace_def timed_out_try_def)
  have "\<forall>e \<in> set (trace (snd (scan N w))). \<not> is_printf e"
    by (auto simp: t setup_trace_def timed_out_try_def is_printf_def)
  then have "filter is_printf (trace (snd (scan N w))) = []"
    by (simp add: filter_empty_conv)
  with r t c show ?thesis by simp
qed

theorem retry_exhaustion_witness:
  "never_ready [Poll_ret 0 0] \<and>
   finish (scan 2 (example_world garbage [Poll_ret 0 0] [])) =
     (Returns 0,
      [Open_device, Ioctl_EVIOCGRAB, WiringPiSetupGpio, PinMode_OUTPUT 25,
       DigitalWrite 25 HIGH, Poll 800, DigitalWrite 25 LOW, Usleep 200000,
       DigitalWrite 25 HIGH, Poll 800, DigitalWrite 25 LOW, Usleep 200000]) \<and>
   count_list (trace (snd (scan 2 (example_world garbage [Poll_ret 0 0] [])))) (Poll 800) = 2"
proof -
  have h: "never_ready (poll_answers (example_world garbage [Poll_ret 0 0] []))"
    by (simp add: example_world_def never_ready_def)
  have n: "never_ready [Poll_ret 0 0]" by (simp add: never_ready_def)
  from retry_exhaustion [OF h, of 2] n show ?thesis
    by (simp add: finish_def setup_trace_def timed_out_try_def SCANPIN_def numeral_2_eq_2
        prod_eq_iff)
qed

section \<open>Leaving the inner loop\<close>

text \<open>The state of the buffer that every run reaches: the invariant of the bounds, and no
  \<^verbatim>\<open>'\0'\<close> among the characters stored so far.\<close>

definition chars_inv :: "scan_state \<Rightarrow> bool" where
  "chars_inv st = (buffer_inv st \<and> NUL \<notin> set (accumulated st))"

lemma c_string_terminated:
  assumes "i < length a" and "a ! i = NUL" and "NUL \<notin> set (take i a)"
  shows "c_string a = Some (take i a)"
proof -
  have mem: "NUL \<in> set a" using assms(1,2) nth_mem by fastforce
  have "a = take i a @ a ! i # drop (Suc i) a" using assms(1) by (rule id_take_nth_drop)
  then have "takeWhile (\<lambda>c. c \<noteq> NUL) a =
      takeWhile (\<lambda>c. c \<noteq> NUL) (take i a @ NUL # drop (Suc i) a)"
    using assms(2) by simp
  also have "\<dots> = take i a" using assms(3) by (auto simp: takeWhile_tail)
  finally show ?thesis using mem by (simp add: c_string_def)
qed

lemma process_event_finalize:
  assumes "buffer_inv st" and "ev_type (keyevent st) = EV_KEY" and "ev_value (keyevent st) = 1"
    and "codecounter st = MAXCODE - 1 \<or> ev_code (keyevent st) = KEY_ENTER"
  shows "process_event st = (Break, st\<lparr>code := (code st)[nat (codecounter st) := NUL]\<rparr>)"
  using assms by (auto simp: process_event_def Let_def buffer_inv_def store_def MAXCODE_def)

lemma process_event_press_char:
  assumes "buffer_inv st" and "ev_type (keyevent st) = EV_KEY" and "ev_value (keyevent st) = 1"
    and "codecounter st \<noteq> MAXCODE - 1" and "ev_code (keyevent st) \<noteq> KEY_ENTER"
    and "\<not> is_shift_key (ev_code (keyevent st))"
    and "keymap (ev_code (keyevent st)) (shift st) \<noteq> NUL"
  shows "process_event st =
    (Continue, st\<lparr>code := (code st)[nat (codecounter st) := keymap (ev_code (keyevent st)) (shift st)],
                  codecounter := codecounter st + 1\<rparr>)"
  using assms by (auto simp: process_event_def Let_def buffer_inv_def store_def MAXCODE_def)

lemma take_Suc_update:
  assumes "n < length a"
  shows "take (Suc n) (a[n := x]) = take n a @ [x]"
  using assms by (simp add: take_Suc_conv_app_nth)

lemma process_event_chars_inv:
  assumes "chars_inv st"
  shows "chars_inv (snd (process_event st)) \<and> fst (process_event st) \<noteq> Out_of_bounds"
proof -
  from assms have b: "buffer_inv st" and n: "NUL \<notin> set (accumulated st)"
    by (simp_all add: chars_inv_def)
  have b': "buffer_inv (snd (process_event st))" and f: "fst (process_event st) \<noteq> Out_of_bounds"
    using process_event_inv [OF b] by simp_all
  have "NUL \<notin> set (accumulated (snd (process_event st)))"
    using b n
    by (auto simp: process_event_def Let_def buffer_inv_def store_def MAXCODE_def
        accumulated_def nat_add_distrib take_Suc_update dest: in_set_takeD)
  with b' f show ?thesis by (simp add: chars_inv_def)
qed

lemma do_read_chars_inv:
  assumes "chars_inv st" and "do_read st = Some st1"
  shows "chars_inv st1"
  using assms(1) do_read_frame [OF assms(2)] by (simp add: chars_inv_def buffer_inv_def accumulated_def)

lemma read_loop_chars_inv:
  assumes "chars_inv st"
  shows "chars_inv (snd (read_loop st))"
proof -
  have "chars_inv (snd (read_loop st)) \<and> fst (read_loop st) \<noteq> Faulted"
    using assms by (rule read_loop_rule) (auto intro: do_read_chars_inv dest: process_event_chars_inv)
  then show ?thesis by simp
qed

lemma process_event_Break:
  assumes "process_event st = (Break, st')"
  shows "nat (codecounter st') < length (code st') \<and> code st' ! nat (codecounter st') = NUL"
  using assms
  by (auto simp: process_event_def Let_def store_def split: if_splits option.splits)

text \<open>When the inner loop is left with a \<^verbatim>\<open>readstatus\<close> that is not negative, it was left by
  \<^verbatim>\<open>break\<close>, and \<^verbatim>\<open>code[codecounter]\<close> is the terminating \<^verbatim>\<open>'\0'\<close>.\<close>

lemma read_loop_exit_break:
  assumes "read_loop st = (Exited, st2)" and "0 \<le> readstatus st2"
  shows "nat (codecounter st2) < length (code st2) \<and> code st2 ! nat (codecounter st2) = NUL"
  using assms
proof (induction st rule: read_loop.induct)
  case (1 st)
  show ?case
  proof (cases "do_read st")
    case None
    with "1.prems" show ?thesis by (simp add: read_loop.simps [of st])
  next
    case (Some st1)
    show ?thesis
    proof (cases "readstatus st1 \<ge> 0")
      case False
      with Some "1.prems" show ?thesis by (simp add: read_loop.simps [of st])
    next
      case True
      obtain fl st' where p: "process_event st1 = (fl, st')" by (cases "process_event st1")
      show ?thesis
      proof (cases fl)
        case Continue
        with Some True p "1.prems"(1) have "read_loop st' = (Exited, st2)"
          by (simp add: read_loop.simps [of st])
        from "1.IH" [OF Some True p [symmetric] Continue this "1.prems"(2)] show ?thesis .
      next
        case Break
        with Some True p "1.prems"(1) have "st2 = st'" by (simp add: read_loop.simps [of st])
        with process_event_Break p Break show ?thesis by simp
      next
        case Out_of_bounds
        with Some True p "1.prems"(1) show ?thesis by (simp add: read_loop.simps [of st])
      qed
    qed
  qed
qed

lemma read_loop_printed:
  assumes "chars_inv st" and "read_loop st = (Exited, st2)" and "0 \<le> readstatus st2"
  shows "c_string (code st2) = Some (accumulated st2)"
proof -
  from read_loop_chars_inv [OF assms(1)] assms(2) have "NUL \<notin> set (accumulated st2)"
    by (simp add: chars_inv_def)
  with read_loop_exit_break [OF assms(2,3)] show ?thesis
    unfolding accumulated_def by (simp add: c_string_terminated)
qed

section \<open>One try in which the device is ready\<close>

lemma scan_loop_printed:
  assumes "trycount st < tries" and "err st = 0"
    and "err (poll (digitalWrite SCANPIN HIGH st)) \<noteq> 0"
    and "read_loop (poll (digitalWrite SCANPIN HIGH st)) = (Exited, st2)"
    and "\<not> size_t_of_int (readstatus st2) < sizeof_keyevent"
    and "c_string (code st2) = Some s"
  shows "fst (scan_loop tries st) = Returns 0 \<and>
         trace (snd (scan_loop tries st)) =
           trace st @ [DigitalWrite SCANPIN HIGH, Poll 800, Printf (s @ [LF]),
                       DigitalWrite SCANPIN LOW, Usleep 200000]"
proof -
  let ?st1 = "poll (digitalWrite SCANPIN HIGH st)"
  let ?st3 = "restart (emit (Printf (s @ [LF])) st2)"
  from read_loop_frame [of ?st1] assms(4)
  have t2: "trace st2 = trace st @ [DigitalWrite SCANPIN HIGH, Poll 800]" and e2: "err st2 = err ?st1"
    by (simp_all add: digitalWrite_def)
  have b: "scan_body st = Inr ?st3"
    using assms(3-6) by (simp add: scan_body_def Let_def printf_code_def)
  have "scan_loop tries st = scan_loop tries ?st3"
    using assms(1,2) b by (subst scan_loop.simps) simp
  also have "\<dots> = (Returns 0, ?st3)"
    using assms(3) e2 by (subst scan_loop.simps) simp
  finally show ?thesis using t2 by simp
qed

lemma scan_loop_blocked:
  assumes "trycount st < tries" and "err st = 0"
    and "err (poll (digitalWrite SCANPIN HIGH st)) \<noteq> 0"
    and "read_loop (poll (digitalWrite SCANPIN HIGH st)) = (Blocked, st2)"
  shows "fst (scan_loop tries st) = Blocks \<and>
         trace (snd (scan_loop tries st)) = trace st @ [DigitalWrite SCANPIN HIGH, Poll 800]"
proof -
  let ?st1 = "poll (digitalWrite SCANPIN HIGH st)"
  from read_loop_frame [of ?st1] assms(4)
  have t2: "trace st2 = trace st @ [DigitalWrite SCANPIN HIGH, Poll 800]"
    by (simp add: digitalWrite_def)
  have b: "scan_body st = Inl (Blocks, st2)"
    using assms(3,4) by (simp add: scan_body_def Let_def)
  have "scan_loop tries st = (Blocks, st2)"
    using assms(1,2) b by (subst scan_loop.simps) simp
  with t2 show ?thesis by simp
qed

lemma poll_ready:
  assumes "polls st = Poll_ret r e # ps"
  shows "err (poll st) = r"
  using assms by (simp add: poll_def)

lemma full_read_not_short: "\<not> size_t_of_int sizeof_keyevent < sizeof_keyevent"
  by (simp add: size_t_of_int_def sizeof_keyevent_def)

section \<open>The success path\<close>

text \<open>The example of a scan of the code "a": the device is ready at the first try and
  delivers the press of A and the press of Enter.\<close>

definition w3 :: world where
  "w3 = example_world garbage [Poll_ret 1 0]
          (map full_read [key_event KEY_A 1, key_event KEY_ENTER 1])"

text \<open>
  After \<^verbatim>\<open>printf\<close> the run goes on with the end of the loop body: the pin is driven LOW and
  the settle time is slept before \<^verbatim>\<open>scan\<close> returns 0. So the statement that the pin is not
  lowered on the success path does not hold for this run.
\<close>

theorem success_lowers_pin:
  "finish (scan 5 w3) =
     (Returns 0,
      [Open_device, Ioctl_EVIOCGRAB, WiringPiSetupGpio, PinMode_OUTPUT 25,
       DigitalWrite 25 HIGH, Poll 800, Printf [CHR ''a'', CHR 0x0A],
       DigitalWrite 25 LOW, Usleep 200000])"
  by code_simp

text \<open>
  C3, as the code has it. In a try in which the device is ready and the inner loop is left
  on a whole event (the press of Enter, or a key press on a full buffer), the characters
  stored are printed as one line, then the pin is driven LOW, the settle time of 200 ms is
  slept, and \<^verbatim>\<open>scan\<close> returns 0: nothing follows, no further try is made.
\<close>

theorem success_path:
  assumes "chars_inv st" and "trycount st < tries" and "err st = 0"
    and "polls st = Poll_ret r e # ps" and "0 < r"
    and "read_loop (poll (digitalWrite SCANPIN HIGH st)) = (Exited, st2)"
    and "readstatus st2 = sizeof_keyevent"
  shows "fst (scan_loop tries st) = Returns 0 \<and>
         trace (snd (scan_loop tries st)) =
           trace st @ [DigitalWrite SCANPIN HIGH, Poll 800, Printf (accumulated st2 @ [LF]),
                       DigitalWrite SCANPIN LOW, Usleep 200000]"
proof -
  let ?st1 = "poll (digitalWrite SCANPIN HIGH st)"
  have "polls (digitalWrite SCANPIN HIGH st) = Poll_ret r e # ps"
    using assms(4) by (simp add: digitalWrite_def)
  from poll_ready [OF this] assms(5) have e1: "err ?st1 \<noteq> 0" by simp
  have "chars_inv ?st1"
    using assms(1) by (simp add: chars_inv_def buffer_inv_def accumulated_def digitalWrite_def)
  from read_loop_printed [OF this assms(6)] assms(7)
  have c: "c_string (code st2) = Some (accumulated st2)" by (simp add: sizeof_keyevent_def)
  have ns: "\<not> size_t_of_int (readstatus st2) < sizeof_keyevent"
    using assms(7) full_read_not_short by simp
  from scan_loop_printed [OF assms(2,3) e1 assms(6) ns c] show ?thesis .
qed

theorem success_path_witness:
  "chars_inv (init_state w9) \<and>
   fst (read_loop (poll (digitalWrite SCANPIN HIGH (init_state w9)))) = Exited \<and>
   readstatus (snd (read_loop (poll (digitalWrite SCANPIN HIGH (init_state w9))))) = sizeof_keyevent \<and>
   fst (scan 2 w9) = Returns 0 \<and>
   trace (snd (scan 2 w9)) =
     setup_trace @ [DigitalWrite SCANPIN HIGH, Poll 800, Printf [CHR ''A'', LF],
                    DigitalWrite SCANPIN LOW, Usleep 200000]"
proof -
  let ?st = "init_state w9"
  let ?r = "read_loop (poll (digitalWrite SCANPIN HIGH ?st))"
  have h1: "chars_inv ?st" by code_simp
  have h2: "trycount ?st < 2" by code_simp
  have h3: "err ?st = 0" by code_simp
  have h4: "polls ?st = Poll_ret 1 0 # []" by code_simp
  have h5: "(0::int) < 1" by simp
  have f: "fst ?r = Exited" by code_simp
  then have h6: "?r = (Exited, snd ?r)" by (simp add: prod_eq_iff)
  have h7: "readstatus (snd ?r) = sizeof_keyevent" by code_simp
  have a: "accumulated (snd ?r) = [CHR ''A'']" by code_simp
  have t: "trace ?st = setup_trace" by (simp add: init_state_def)
  from success_path [OF h1 h2 h3 h4 h5 h6 h7] h1 f h7 show ?thesis
    by (simp add: scan_def a t)
qed

text \<open>
  C7. A press of Enter that is read as a whole event ends the inner loop at once, whatever
  the character count: \<^verbatim>\<open>'\0'\<close> is stored at \<^verbatim>\<open>code[codecounter]\<close>, nothing else of the
  buffer changes, and the string in the buffer is the characters stored so far. When the
  press of Enter is the first event of a scan, the decoded string is empty and \<^verbatim>\<open>scan\<close>
  prints one empty line and returns 0.
\<close>

theorem enter_finalizes:
  "(buffer_inv st \<and> reads st = Read_ret sizeof_keyevent e (key_event KEY_ENTER 1) # rs \<longrightarrow>
      (\<exists>st'. read_loop st = (Exited, st') \<and> readstatus st' = sizeof_keyevent \<and> reads st' = rs \<and>
         code st' = (code st)[nat (codecounter st) := NUL] \<and>
         codecounter st' = codecounter st \<and>
         (NUL \<notin> set (accumulated st) \<longrightarrow> c_string (code st') = Some (accumulated st)))) \<and>
   (0 < tries \<and> poll_answers w = Poll_ret r e' # ps \<and> 0 < r \<and>
    read_answers w = full_read (key_event KEY_ENTER 1) # rs' \<longrightarrow>
      finish (scan tries w) =
        (Returns 0,
         setup_trace @ [DigitalWrite SCANPIN HIGH, Poll 800, Printf [LF],
                        DigitalWrite SCANPIN LOW, Usleep 200000]))"
proof -
  have part1: "\<exists>st'. read_loop st = (Exited, st') \<and> readstatus st' = sizeof_keyevent \<and>
         reads st' = rs \<and> code st' = (code st)[nat (codecounter st) := NUL] \<and>
         codecounter st' = codecounter st \<and>
         (NUL \<notin> set (accumulated st) \<longrightarrow> c_string (code st') = Some (accumulated st))"
    if b: "buffer_inv st"
      and r: "reads st = Read_ret sizeof_keyevent e (key_event KEY_ENTER 1) # rs"
    for st :: scan_state and e rs
  proof -
    let ?st1 = "st\<lparr>readstatus := sizeof_keyevent, keyevent := key_event KEY_ENTER 1, reads := rs\<rparr>"
    let ?st' = "?st1\<lparr>code := (code st)[nat (codecounter st) := NUL]\<rparr>"
    have d: "do_read st = Some ?st1"
      using r by (simp add: do_read_def sizeof_keyevent_def)
    have b1: "buffer_inv ?st1" using b by (simp add: buffer_inv_def)
    have p: "process_event ?st1 = (Break, ?st')"
      using process_event_finalize [OF b1] by (simp add: key_event_def)
    have ge: "0 \<le> sizeof_keyevent" by (simp add: sizeof_keyevent_def)
    have rl: "read_loop st = (Exited, ?st')"
      by (subst read_loop.simps) (simp add: d p ge)
    have lt: "nat (codecounter st) < length (code st)"
      using b by (auto simp: buffer_inv_def MAXCODE_def)
    have "c_string (code ?st') = Some (accumulated st)" if "NUL \<notin> set (accumulated st)"
      using c_string_terminated [of "nat (codecounter st)" "code ?st'"] lt that
      by (simp add: accumulated_def)
    with rl show ?thesis by simp
  qed
  have part2: "finish (scan tries w) =
        (Returns 0,
         setup_trace @ [DigitalWrite SCANPIN HIGH, Poll 800, Printf [LF],
                        DigitalWrite SCANPIN LOW, Usleep 200000])"
    if t: "0 < tries" and pa: "poll_answers w = Poll_ret r e' # ps" and rp: "0 < r"
      and ra: "read_answers w = full_read (key_event KEY_ENTER 1) # rs'"
  proof -
    let ?st0 = "init_state w"
    let ?st1 = "poll (digitalWrite SCANPIN HIGH ?st0)"
    have b1: "buffer_inv ?st1"
      using init_state_inv [of w] by (simp add: buffer_inv_def digitalWrite_def)
    have r1: "reads ?st1 = Read_ret sizeof_keyevent 0 (key_event KEY_ENTER 1) # rs'"
      using ra by (simp add: digitalWrite_def init_state_def full_read_def)
    have a1: "accumulated ?st1 = []"
      by (simp add: accumulated_def digitalWrite_def init_state_def)
    from part1 [OF b1 r1] a1 obtain st' where
      rl: "read_loop ?st1 = (Exited, st')" and rs: "readstatus st' = sizeof_keyevent"
      and c: "c_string (code st') = Some []"
      by auto
    have e1: "err ?st1 \<noteq> 0"
      using pa rp by (simp add: poll_def digitalWrite_def init_state_def)
    have ns: "\<not> size_t_of_int (readstatus st') < sizeof_keyevent"
      using rs full_read_not_short by simp
    have i: "trycount ?st0 < tries" "err ?st0 = 0" "trace ?st0 = setup_trace"
      using t by (simp_all add: init_state_def)
    from scan_loop_printed [OF i(1,2) e1 rl ns c] i(3) show ?thesis
      by (simp add: finish_def scan_def prod_eq_iff)
  qed
  from part1 part2 show ?thesis by blast
qed

definition w7 :: world where
  "w7 = example_world garbage [Poll_ret 1 0] [full_read (key_event KEY_ENTER 1)]"

theorem enter_finalizes_witness:
  "buffer_inv (init_state w7) \<and>
   reads (init_state w7) = [Read_ret sizeof_keyevent 0 (key_event KEY_ENTER 1)] \<and>
   (\<exists>st'. read_loop (init_state w7) = (Exited, st') \<and> c_string (code st') = Some []) \<and>
   finish (scan 1 w7) =
     (Returns 0,
      setup_trace @ [DigitalWrite SCANPIN HIGH, Poll 800, Printf [LF],
                     DigitalWrite SCANPIN LOW, Usleep 200000])"
proof -
  have h1: "buffer_inv (init_state w7)" by (rule init_state_inv)
  have h2: "reads (init_state w7) = Read_ret sizeof_keyevent 0 (key_event KEY_ENTER 1) # []"
    by (simp add: w7_def init_state_def example_world_def full_read_def)
  have h3: "NUL \<notin> set (accumulated (init_state w7))" "accumulated (init_state w7) = []"
    by (simp_all add: accumulated_def init_state_def)
  have h4: "(0::int) < 1" "poll_answers w7 = Poll_ret 1 0 # []"
    "read_answers w7 = full_read (key_event KEY_ENTER 1) # []"
    by (simp_all add: w7_def example_world_def)
  from enter_finalizes [of "init_state w7" 0 "[]" 1 w7 1 0 "[]" "[]"] h1 h2 h3 h4
  show ?thesis by auto
qed

section \<open>A full buffer\<close>

text \<open>A press of a key other than Enter that \<^verbatim>\<open>keymap\<close> maps to a character without shift.\<close>

definition mapped_press :: "input_event \<Rightarrow> bool" where
  "mapped_press ev =
     (ev_type ev = EV_KEY \<and> ev_value ev = 1 \<and> ev_code ev \<noteq> KEY_ENTER \<and>
      keymap (ev_code ev) 0 \<noteq> NUL)"

definition unshifted_chars :: "input_event list \<Rightarrow> string" where
  "unshifted_chars evs = map (\<lambda>ev. keymap (ev_code ev) 0) evs"

lemma shift_keys_unmapped: "is_shift_key c \<Longrightarrow> keymap c 0 = NUL"
  by (auto simp: is_shift_key_def keymap_def unshifted_cases_def key_defs)

lemma do_read_full:
  assumes "reads st = full_read ev # rs"
  shows "\<exists>st1. do_read st = Some st1 \<and> keyevent st1 = ev \<and> readstatus st1 = sizeof_keyevent \<and>
           reads st1 = rs \<and> code st1 = code st \<and> codecounter st1 = codecounter st \<and>
           shift st1 = shift st"
  using assms by (simp add: do_read_def full_read_def sizeof_keyevent_def)

lemma read_loop_presses:
  assumes "chars_inv st" and "shift st = 0" and "\<forall>ev \<in> set evs. mapped_press ev"
    and "codecounter st + int (length evs) \<le> MAXCODE - 1"
    and "reads st = map full_read evs @ rest"
  shows "\<exists>st'. read_loop st = read_loop st' \<and> reads st' = rest \<and> chars_inv st' \<and> shift st' = 0 \<and>
           codecounter st' = codecounter st + int (length evs) \<and>
           accumulated st' = accumulated st @ unshifted_chars evs"
  using assms
proof (induction evs arbitrary: st)
  case Nil
  then show ?case by (auto simp: unshifted_chars_def)
next
  case (Cons ev evs)
  from Cons.prems(5) have "reads st = full_read ev # (map full_read evs @ rest)" by simp
  from do_read_full [OF this] obtain st1 where
    d: "do_read st = Some st1" and k: "keyevent st1 = ev" and rs1: "readstatus st1 = sizeof_keyevent"
    and r1: "reads st1 = map full_read evs @ rest" and c1: "code st1 = code st"
    and cc1: "codecounter st1 = codecounter st" and s1: "shift st1 = shift st"
    by blast
  have ci1: "chars_inv st1" using do_read_chars_inv [OF Cons.prems(1) d] .
  then have b1: "buffer_inv st1" by (simp add: chars_inv_def)
  from Cons.prems(3) have mp: "mapped_press ev" by simp
  then have ns: "\<not> is_shift_key (ev_code ev)" using shift_keys_unmapped by (auto simp: mapped_press_def)
  have nf: "codecounter st1 \<noteq> MAXCODE - 1" using Cons.prems(4) cc1 by simp
  let ?c = "keymap (ev_code ev) 0"
  let ?st2 = "st1\<lparr>code := (code st1)[nat (codecounter st1) := ?c],
                  codecounter := codecounter st1 + 1\<rparr>"
  have p: "process_event st1 = (Continue, ?st2)"
    using process_event_press_char [OF b1] mp ns nf k s1 Cons.prems(2)
    by (simp add: mapped_press_def)
  have ge: "0 \<le> readstatus st1" using rs1 by (simp add: sizeof_keyevent_def)
  have unf: "read_loop st = read_loop ?st2"
    by (subst read_loop.simps) (simp add: d p ge)
  have ci2: "chars_inv ?st2" using process_event_chars_inv [OF ci1] p by simp
  have lt: "nat (codecounter st) < length (code st)" and nn: "0 \<le> codecounter st"
    using b1 c1 cc1 by (auto simp: buffer_inv_def MAXCODE_def)
  have a2: "accumulated ?st2 = accumulated st @ [?c]"
    using lt nn by (simp add: accumulated_def c1 cc1 nat_add_distrib take_Suc_update)
  have "\<exists>st'. read_loop ?st2 = read_loop st' \<and> reads st' = rest \<and> chars_inv st' \<and> shift st' = 0 \<and>
           codecounter st' = codecounter ?st2 + int (length evs) \<and>
           accumulated st' = accumulated ?st2 @ unshifted_chars evs"
  proof (rule Cons.IH [OF ci2])
    show "shift ?st2 = 0" using s1 Cons.prems(2) by simp
    show "\<forall>ev \<in> set evs. mapped_press ev" using Cons.prems(3) by simp
    show "codecounter ?st2 + int (length evs) \<le> MAXCODE - 1" using Cons.prems(4) cc1 by simp
    show "reads ?st2 = map full_read evs @ rest" using r1 by simp
  qed
  then obtain st' where "read_loop ?st2 = read_loop st'" "reads st' = rest" "chars_inv st'"
    "shift st' = 0" "codecounter st' = codecounter ?st2 + int (length evs)"
    "accumulated st' = accumulated ?st2 @ unshifted_chars evs"
    by blast
  with unf a2 cc1 show ?case
    by (intro exI [of _ st']) (simp add: unshifted_chars_def)
qed

lemma read_loop_finalize:
  assumes "chars_inv st" and "reads st = full_read ev # rs"
    and "ev_type ev = EV_KEY" and "ev_value ev = 1"
    and "codecounter st = MAXCODE - 1 \<or> ev_code ev = KEY_ENTER"
  shows "\<exists>st'. read_loop st = (Exited, st') \<and> readstatus st' = sizeof_keyevent \<and>
           c_string (code st') = Some (accumulated st)"
proof -
  from do_read_full [OF assms(2)] obtain st1 where
    d: "do_read st = Some st1" and k: "keyevent st1 = ev" and rs1: "readstatus st1 = sizeof_keyevent"
    and c1: "code st1 = code st" and cc1: "codecounter st1 = codecounter st"
    by blast
  have ci1: "chars_inv st1" using do_read_chars_inv [OF assms(1) d] .
  then have b1: "buffer_inv st1" by (simp add: chars_inv_def)
  let ?st' = "st1\<lparr>code := (code st1)[nat (codecounter st1) := NUL]\<rparr>"
  have p: "process_event st1 = (Break, ?st')"
    using process_event_finalize [OF b1] assms(3-5) k cc1 by simp
  have ge: "0 \<le> readstatus st1" using rs1 by (simp add: sizeof_keyevent_def)
  have rl: "read_loop st = (Exited, ?st')"
    by (subst read_loop.simps) (simp add: d p ge)
  have ge': "0 \<le> readstatus ?st'" using ge by simp
  have "accumulated ?st' = accumulated st" by (simp add: accumulated_def c1 cc1)
  with read_loop_printed [OF assms(1) rl ge'] rl rs1 show ?thesis by simp
qed

text \<open>Sixty-three presses of the key A on a stack that holds no \<^verbatim>\<open>'\0'\<close>, and the same
  followed by a press of the key B.\<close>

definition w4 :: world where
  "w4 = example_world (\<lambda>i. CHR ''?'') [Poll_ret 1 0]
          (map full_read (replicate 63 (key_event KEY_A 1)))"

definition w4b :: world where
  "w4b = example_world (\<lambda>i. CHR ''?'') [Poll_ret 1 0]
          (map full_read (replicate 63 (key_event KEY_A 1)) @ [full_read (key_event KEY_B 1)])"

text \<open>
  With exactly \<^verbatim>\<open>MAXCODE - 1\<close> mapped key presses and nothing after them the buffer is not
  finalized: the count is 63, \<^verbatim>\<open>code[63]\<close> still holds what the stack held, nothing is
  printed, and \<^verbatim>\<open>scan\<close> waits in \<^verbatim>\<open>read\<close> with the pin HIGH.
\<close>

theorem full_buffer_not_finalized:
  "fst (scan 1 w4) = Blocks \<and>
   trace (snd (scan 1 w4)) =
     [Open_device, Ioctl_EVIOCGRAB, WiringPiSetupGpio, PinMode_OUTPUT 25,
      DigitalWrite 25 HIGH, Poll 800] \<and>
   codecounter (snd (scan 1 w4)) = 63 \<and>
   code (snd (scan 1 w4)) ! 63 = CHR ''?''"
  by code_simp

text \<open>
  C4, as the code has it. After \<^verbatim>\<open>MAXCODE - 1\<close> presses of mapped keys other than Enter the
  buffer is full, and \<^verbatim>\<open>scan\<close> goes on reading: with no further event it does not return.
  The next key press, of whatever key, finalizes the buffer: the 63 characters are printed
  as one line and \<^verbatim>\<open>scan\<close> returns 0; that key is not stored. Enter is not required.
\<close>

theorem full_buffer_finalized_by_next_press:
  assumes "0 < tries" and "poll_answers w = Poll_ret r e # ps" and "0 < r"
    and "length evs = nat (MAXCODE - 1)" and "\<forall>ev \<in> set evs. mapped_press ev"
  shows "(read_answers w = map full_read evs \<longrightarrow>
            fst (scan tries w) = Blocks \<and>
            trace (snd (scan tries w)) = setup_trace @ [DigitalWrite SCANPIN HIGH, Poll 800]) \<and>
         (read_answers w = map full_read evs @ full_read (key_event c 1) # rs \<longrightarrow>
            finish (scan tries w) =
              (Returns 0,
               setup_trace @ [DigitalWrite SCANPIN HIGH, Poll 800,
                              Printf (unshifted_chars evs @ [LF]),
                              DigitalWrite SCANPIN LOW, Usleep 200000]))"
proof -
  let ?st0 = "init_state w"
  let ?st1 = "poll (digitalWrite SCANPIN HIGH ?st0)"
  have i: "trycount ?st0 < tries" "err ?st0 = 0" "trace ?st0 = setup_trace"
    using assms(1) by (simp_all add: init_state_def)
  have e1: "err ?st1 \<noteq> 0"
    using assms(2,3) by (simp add: poll_def digitalWrite_def init_state_def)
  have ci: "chars_inv ?st1"
    using init_state_inv [of w]
    by (simp add: chars_inv_def buffer_inv_def accumulated_def digitalWrite_def)
      (simp add: init_state_def)
  have s: "shift ?st1 = 0" and cc: "codecounter ?st1 = 0" and a: "accumulated ?st1 = []"
    and rd: "reads ?st1 = read_answers w"
    by (simp_all add: digitalWrite_def init_state_def accumulated_def)
  have len: "codecounter ?st1 + int (length evs) \<le> MAXCODE - 1"
    using assms(4) cc by (simp add: MAXCODE_def)
  have run: "\<exists>st'. read_loop ?st1 = read_loop st' \<and> reads st' = rest \<and> chars_inv st' \<and>
      codecounter st' = MAXCODE - 1 \<and> accumulated st' = unshifted_chars evs"
    if "read_answers w = map full_read evs @ rest" for rest
  proof -
    from that rd have "reads ?st1 = map full_read evs @ rest" by simp
    from read_loop_presses [OF ci s assms(5) len this] cc a assms(4) show ?thesis
      by (auto simp: MAXCODE_def)
  qed
  have blocked: "fst (scan tries w) = Blocks \<and>
      trace (snd (scan tries w)) = setup_trace @ [DigitalWrite SCANPIN HIGH, Poll 800]"
    if "read_answers w = map full_read evs"
  proof -
    from run [of "[]"] that obtain st' where
      rl: "read_loop ?st1 = read_loop st'" and r': "reads st' = []"
      by auto
    have "read_loop st' = (Blocked, st')"
      by (subst read_loop.simps) (simp add: do_read_def r')
    with rl have "read_loop ?st1 = (Blocked, st')" by simp
    from scan_loop_blocked [OF i(1,2) e1 this] i(3) show ?thesis by (simp add: scan_def)
  qed
  have finalized: "finish (scan tries w) =
      (Returns 0,
       setup_trace @ [DigitalWrite SCANPIN HIGH, Poll 800, Printf (unshifted_chars evs @ [LF]),
                      DigitalWrite SCANPIN LOW, Usleep 200000])"
    if "read_answers w = map full_read evs @ full_read (key_event c 1) # rs"
  proof -
    from run [OF that] obtain st' where
      rl: "read_loop ?st1 = read_loop st'" and r': "reads st' = full_read (key_event c 1) # rs"
      and ci': "chars_inv st'" and cc': "codecounter st' = MAXCODE - 1"
      and a': "accumulated st' = unshifted_chars evs"
      by auto
    have "\<exists>st2. read_loop st' = (Exited, st2) \<and> readstatus st2 = sizeof_keyevent \<and>
        c_string (code st2) = Some (accumulated st')"
      using cc' by (intro read_loop_finalize [OF ci' r']) (simp_all add: key_event_def)
    with rl a' obtain st2 where
      x: "read_loop ?st1 = (Exited, st2)" and rs2: "readstatus st2 = sizeof_keyevent"
      and c2: "c_string (code st2) = Some (unshifted_chars evs)"
      by auto
    have ns: "\<not> size_t_of_int (readstatus st2) < sizeof_keyevent"
      using rs2 full_read_not_short by simp
    from scan_loop_printed [OF i(1,2) e1 x ns c2] i(3) show ?thesis
      by (simp add: finish_def scan_def prod_eq_iff)
  qed
  from blocked finalized show ?thesis by blast
qed

theorem full_buffer_finalized_by_next_press_witness:
  "length (replicate 63 (key_event KEY_A 1)) = nat (MAXCODE - 1) \<and>
   mapped_press (key_event KEY_A 1) \<and>
   fst (scan 1 w4) = Blocks \<and>
   finish (scan 1 w4b) =
     (Returns 0,
      setup_trace @ [DigitalWrite SCANPIN HIGH, Poll 800,
                     Printf (replicate 63 (CHR ''a'') @ [LF]),
                     DigitalWrite SCANPIN LOW, Usleep 200000])"
proof -
  let ?evs = "replicate 63 (key_event KEY_A 1)"
  have h1: "(0::int) < 1" by simp
  have h2: "poll_answers w4 = Poll_ret 1 0 # []" "poll_answers w4b = Poll_ret 1 0 # []"
    by (simp_all add: w4_def w4b_def example_world_def)
  have h4: "length ?evs = nat (MAXCODE - 1)" by (simp add: MAXCODE_def)
  have m: "mapped_press (key_event KEY_A 1)"
    by (simp add: mapped_press_def key_event_def keymap_def unshifted_cases_def key_defs NUL_def)
  then have h5: "\<forall>ev \<in> set ?evs. mapped_press ev" by simp
  have r4: "read_answers w4 = map full_read ?evs"
    by (simp add: w4_def example_world_def)
  have r4b: "read_answers w4b = map full_read ?evs @ full_read (key_event KEY_B 1) # []"
    by (simp add: w4b_def example_world_def)
  have u: "unshifted_chars ?evs = replicate 63 (CHR ''a'')"
    by (simp add: unshifted_chars_def key_event_def keymap_def unshifted_cases_def key_defs)
  from full_buffer_finalized_by_next_press [OF h1 h2(1) h1 h4 h5, of KEY_B "[]"] r4
  have a: "fst (scan 1 w4) = Blocks" by simp
  from full_buffer_finalized_by_next_press [OF h1 h2(2) h1 h4 h5, of KEY_B "[]"] r4b u
  have b: "finish (scan 1 w4b) =
     (Returns 0,
      setup_trace @ [DigitalWrite SCANPIN HIGH, Poll 800,
                     Printf (replicate 63 (CHR ''a'') @ [LF]),
                     DigitalWrite SCANPIN LOW, Usleep 200000])" by simp
  from h4 m a b show ?thesis by blast
qed

section \<open>A read that fails\<close>

text \<open>
  A negative \<^verbatim>\<open>int\<close> converted to \<^verbatim>\<open>size_t\<close> is a large number, so the test
  \<^verbatim>\<open>readstatus < sizeof(keyevent)\<close> does not hold for the \<open>-1\<close> of a failed \<^verbatim>\<open>read\<close>.
  The same holds for every width of \<^verbatim>\<open>size_t\<close> of at least 32 bits and every size of
  the event record below \<open>2 ^ 31\<close>.
\<close>

lemma negative_readstatus_not_short:
  assumes "r < 0" and "- (2 ^ 31) \<le> r"
  shows "\<not> size_t_of_int r < sizeof_keyevent"
proof -
  have "(r + 4294967296) mod 4294967296 = r + 4294967296"
    using assms by (intro mod_pos_pos_trivial) simp_all
  then have "r mod 4294967296 = r + 4294967296" by simp
  then show ?thesis using assms by (simp add: size_t_of_int_def sizeof_keyevent_def)
qed

text \<open>The device is ready and the first \<^verbatim>\<open>read\<close> fails with \<^verbatim>\<open>ENODEV\<close> (19); the device is
  ready, delivers a press of A and then a \<^verbatim>\<open>read\<close> returns 0 bytes.\<close>

definition w1 :: world where
  "w1 = example_world garbage [Poll_ret 1 0]
          [Read_ret (- 1) 19 \<lparr>ev_type = 0, ev_code = 0, ev_value = 0\<rparr>]"

definition w1b :: world where
  "w1b = example_world garbage [Poll_ret 1 0]
          [full_read (key_event KEY_A 1), Read_ret 0 0 \<lparr>ev_type = 0, ev_code = 0, ev_value = 0\<rparr>]"

text \<open>
  C1 does not hold of the code. When \<^verbatim>\<open>read\<close> fails, the inner loop is left, the test
  for a short read is false, and the run goes on as after a scan: it prints what the
  uninitialised buffer holds, lowers the pin, sleeps and returns 0, with no message on the
  diagnostic stream. When \<^verbatim>\<open>read\<close> returns 0 bytes the loop is not left at all: the event
  still in \<^verbatim>\<open>keyevent\<close> is processed a second time and the next \<^verbatim>\<open>read\<close> is awaited.
\<close>

theorem failed_read_is_not_reported:
  "finish (scan 3 w1) =
     (Returns 0,
      [Open_device, Ioctl_EVIOCGRAB, WiringPiSetupGpio, PinMode_OUTPUT 25,
       DigitalWrite 25 HIGH, Poll 800, Printf [CHR ''?'', CHR ''?'', CHR ''?'', CHR 0x0A],
       DigitalWrite 25 LOW, Usleep 200000]) \<and>
   finish (scan 3 w1b) =
     (Blocks,
      [Open_device, Ioctl_EVIOCGRAB, WiringPiSetupGpio, PinMode_OUTPUT 25,
       DigitalWrite 25 HIGH, Poll 800]) \<and>
   accumulated (snd (scan 3 w1b)) = [CHR ''a'', CHR ''a'']"
  by code_simp

section \<open>A poll that fails\<close>

text \<open>The body of the outer loop is the same function without its second branch: after
  \<^verbatim>\<open>if (err = poll(...))\<close> was false, \<^verbatim>\<open>err\<close> is 0 and \<^verbatim>\<open>err < 0\<close> is false.\<close>

lemma polling_branch_unreachable:
  "scan_body st =
     (let st1 = poll (digitalWrite SCANPIN HIGH st) in
      if err st1 \<noteq> 0 then
        (case read_loop st1 of
           (Blocked, st2) \<Rightarrow> Inl (Blocks, st2)
         | (Faulted, st2) \<Rightarrow> Inl (Store_out_of_bounds, st2)
         | (Exited, st2) \<Rightarrow>
             if size_t_of_int (readstatus st2) < sizeof_keyevent then
               Inl (Returns (- 1),
                    digitalWrite SCANPIN LOW (fprintf_stderr ''Error occurred scanning: '' st2))
             else
               (case printf_code st2 of
                  None \<Rightarrow> Inl (Printf_unterminated, st2)
                | Some st3 \<Rightarrow> Inr (restart st3)))
      else Inr (restart st1))"
  by (simp add: scan_body_def Let_def)

text \<open>\<^verbatim>\<open>poll\<close> fails with \<^verbatim>\<open>EINTR\<close> (4); the device is silent afterwards, or delivers a press
  of Enter.\<close>

definition w2 :: world where
  "w2 = example_world garbage [Poll_ret (- 1) 4] []"

definition w2b :: world where
  "w2b = example_world garbage [Poll_ret (- 1) 4] [full_read (key_event KEY_ENTER 1)]"

text \<open>
  C2 does not hold of the code. \<^verbatim>\<open>if (err = poll(...))\<close> is true for the \<open>-1\<close> of a
  failed \<^verbatim>\<open>poll\<close>, so the read loop is entered and the branch \<^verbatim>\<open>else if (err < 0)\<close> with
  the message about polling is never reached. With a silent device \<^verbatim>\<open>scan\<close> then waits in
  \<^verbatim>\<open>read\<close> with the pin HIGH; with an event it goes on as if the device had been ready.
\<close>

theorem failed_poll_enters_read_loop:
  "finish (scan 3 w2) =
     (Blocks,
      [Open_device, Ioctl_EVIOCGRAB, WiringPiSetupGpio, PinMode_OUTPUT 25,
       DigitalWrite 25 HIGH, Poll 800]) \<and>
   finish (scan 3 w2b) =
     (Returns 0,
      [Open_device, Ioctl_EVIOCGRAB, WiringPiSetupGpio, PinMode_OUTPUT 25,
       DigitalWrite 25 HIGH, Poll 800, Printf [CHR 0x0A],
       DigitalWrite 25 LOW, Usleep 200000])"
  by code_simp

section \<open>The try budget\<close>

text \<open>A string in which \<^verbatim>\<open>atoi\<close> finds a number: after the white space and an optional
  sign there is a digit.\<close>

definition starts_with_integer :: "string \<Rightarrow> bool" where
  "starts_with_integer s =
     (case dropWhile isspace s of
        [] \<Rightarrow> False
      | c # r \<Rightarrow>
          if c = CHR ''-'' \<or> c = CHR ''+'' then
            (case r of [] \<Rightarrow> False | d # r' \<Rightarrow> digit_value d \<noteq> None)
          else digit_value c \<noteq> None)"

lemma atoi_no_integer:
  assumes "\<not> starts_with_integer s"
  shows "atoi s = Some 0"
proof -
  have d0: "digits 0 t = 0" if "case t of [] \<Rightarrow> True | d # r \<Rightarrow> digit_value d = None" for t
    using that by (cases t) simp_all
  have sg: "digit_value (CHR ''-'') = None" "digit_value (CHR ''+'') = None"
    by (simp_all add: digit_value_def)
  show ?thesis
  proof (cases "dropWhile isspace s")
    case Nil
    show ?thesis unfolding atoi_def Let_def Nil by (simp add: INT_MAX_def)
  next
    case (Cons c r)
    show ?thesis
    proof (cases "c = CHR ''-'' \<or> c = CHR ''+''")
      case True
      with assms Cons have "case r of [] \<Rightarrow> True | d # r' \<Rightarrow> digit_value d = None"
        by (auto simp: starts_with_integer_def split: list.splits)
      from d0 [OF this] True Cons show ?thesis by (auto simp: atoi_def INT_MAX_def)
    next
      case False
      with assms Cons have "digit_value c = None" by (simp add: starts_with_integer_def)
      with False Cons show ?thesis by (simp add: atoi_def INT_MAX_def)
    qed
  qed
qed

lemma scan_zero_tries: "finish (scan 0 w) = (Returns 0, setup_trace)"
proof -
  have "scan_loop 0 (init_state w) = (Returns 0, init_state w)"
    by (subst scan_loop.simps) (simp add: init_state_def)
  then show ?thesis by (simp add: finish_def scan_def init_state_def)
qed

text \<open>
  With the argument \<^verbatim>\<open>abc\<close> no try is made, although the device of \<open>w3\<close> would deliver
  the code "a" at the first try, as it does under a budget of \<^verbatim>\<open>INT_MAX\<close>.
\<close>

theorem unparsable_argument_is_zero_tries:
  "main [''scan'', ''abc''] w3 =
     (Returns 0, [Open_device, Ioctl_EVIOCGRAB, WiringPiSetupGpio, PinMode_OUTPUT 25]) \<and>
   finish (scan INT_MAX w3) =
     (Returns 0,
      [Open_device, Ioctl_EVIOCGRAB, WiringPiSetupGpio, PinMode_OUTPUT 25,
       DigitalWrite 25 HIGH, Poll 800, Printf [CHR ''a'', CHR 0x0A],
       DigitalWrite 25 LOW, Usleep 200000])"
  by code_simp

text \<open>
  C5, as the code has it. Without an argument, and with more than one, the try budget is
  \<^verbatim>\<open>INT_MAX\<close>. With one argument the budget is \<^verbatim>\<open>atoi\<close> of it; for an argument in which
  \<^verbatim>\<open>atoi\<close> finds no number that is 0, so \<^verbatim>\<open>scan\<close> makes no try and returns 0 at once.
\<close>

theorem try_budget:
  "(length argv \<noteq> 2 \<longrightarrow> main argv w = finish (scan INT_MAX w)) \<and>
   (length argv = 2 \<and> atoi (argv ! 1) = Some n \<longrightarrow> main argv w = finish (scan n w)) \<and>
   (length argv = 2 \<and> \<not> starts_with_integer (argv ! 1) \<longrightarrow>
      main argv w = finish (scan 0 w) \<and> finish (scan 0 w) = (Returns 0, setup_trace))"
  using atoi_no_integer [of "argv ! 1"] scan_zero_tries [of w]
  by (auto simp: main_def)

theorem try_budget_witness:
  "main [''scan''] w3 = finish (scan INT_MAX w3) \<and>
   main [''scan'', ''1'', ''2''] w3 = finish (scan INT_MAX w3) \<and>
   atoi ''5'' = Some 5 \<and> main [''scan'', ''5''] w3 = finish (scan 5 w3) \<and>
   \<not> starts_with_integer ''abc'' \<and>
   main [''scan'', ''abc''] w3 = (Returns 0, setup_trace)"
proof -
  have a: "atoi ''5'' = Some 5" by code_simp
  have b: "\<not> starts_with_integer ''abc''" by code_simp
  from try_budget [of "[''scan'']" w3] try_budget [of "[''scan'', ''1'', ''2'']" w3]
    try_budget [of "[''scan'', ''5'']" w3 5] try_budget [of "[''scan'', ''abc'']" w3] a b
  show ?thesis by simp
qed

section \<open>The value returned\<close>

definition is_error_report :: "effect \<Rightarrow> bool" where
  "is_error_report e = (case e of Fprintf_stderr m n \<Rightarrow> True | _ \<Rightarrow> False)"

definition reported :: "effect list \<Rightarrow> bool" where
  "reported t = list_ex is_error_report t"

lemma reported_append [simp]: "reported (t @ u) = (reported t \<or> reported u)"
  by (auto simp: reported_def list_ex_iff)

lemma reported_simps [simp]:
  "reported [] = False"
  "reported (Fprintf_stderr m n # t) = True"
  "reported (DigitalWrite p l # t) = reported t"
  "reported (Poll ms # t) = reported t"
  "reported (Usleep us # t) = reported t"
  "reported (Printf s # t) = reported t"
  by (simp_all add: reported_def is_error_report_def)

lemma scan_body_reported:
  assumes "\<not> reported (trace st)"
  shows "case scan_body st of
           Inl (out, st') \<Rightarrow> (\<forall>r. out = Returns r \<longrightarrow> r = - 1 \<and> reported (trace st'))
         | Inr st' \<Rightarrow> \<not> reported (trace st')"
proof -
  let ?st1 = "poll (digitalWrite SCANPIN HIGH st)"
  have t1: "\<not> reported (trace ?st1)" using assms by (simp add: digitalWrite_def)
  obtain ex st2 where r: "read_loop ?st1 = (ex, st2)" by (cases "read_loop ?st1")
  have t2: "trace st2 = trace ?st1" using read_loop_frame [of ?st1] r by simp
  show ?thesis
  proof (cases "err ?st1 = 0")
    case True
    with t1 show ?thesis by (simp add: scan_body_def Let_def)
  next
    case False
    with t1 t2 r show ?thesis
      by (cases ex)
        (auto simp: scan_body_def Let_def printf_code_def digitalWrite_def fprintf_stderr_def
          split: option.split)
  qed
qed

lemma scan_loop_reported:
  assumes "\<not> reported (trace st)" and "fst (scan_loop tries st) = Returns r"
  shows "(r = 0 \<and> \<not> reported (trace (snd (scan_loop tries st)))) \<or>
         (r = - 1 \<and> reported (trace (snd (scan_loop tries st))))"
  using assms
proof (induction tries st rule: scan_loop.induct)
  case (1 tries st)
  show ?case
  proof (cases "trycount st < tries \<and> err st = 0")
    case False
    then have "scan_loop tries st = (Returns 0, st)"
      by (subst scan_loop.simps) auto
    with "1.prems" show ?thesis by simp
  next
    case True
    show ?thesis
    proof (cases "scan_body st")
      case (Inl res)
      with True have u: "scan_loop tries st = res" by (subst scan_loop.simps) simp
      obtain out st' where res: "res = (out, st')" by (cases res)
      from scan_body_reported [OF "1.prems"(1)] Inl res "1.prems"(2) u show ?thesis by simp
    next
      case (Inr st')
      with True have u: "scan_loop tries st = scan_loop tries st'" by (subst scan_loop.simps) simp
      from scan_body_reported [OF "1.prems"(1)] Inr have "\<not> reported (trace st')" by simp
      from "1.IH" [OF True Inr this] "1.prems"(2) u show ?thesis by simp
    qed
  qed
qed

lemma main_is_scan:
  assumes "fst (main argv w) = Returns r"
  shows "\<exists>n. main argv w = finish (scan n w)"
  using assms by (auto simp: main_def split: if_splits option.splits)

text \<open>A short read of 12 bytes that leaves a press of Enter in \<^verbatim>\<open>keyevent\<close>, after a press of
  A; the same with \<^verbatim>\<open>errno\<close> left at \<^verbatim>\<open>ENOTTY\<close> (25) by the set-up.\<close>

definition w6 :: world where
  "w6 = example_world garbage [Poll_ret 1 0]
          [full_read (key_event KEY_A 1), Read_ret 12 0 (key_event KEY_ENTER 1)]"

text \<open>
  The two runs end in the error branch with different values of \<^verbatim>\<open>errno\<close> in the message,
  and \<^verbatim>\<open>main\<close> returns \<open>-1\<close> in both: the value returned is not the error code.
\<close>

theorem exit_status_is_not_the_error_code:
  "main [''scan''] w6 =
     (Returns (- 1),
      [Open_device, Ioctl_EVIOCGRAB, WiringPiSetupGpio, PinMode_OUTPUT 25,
       DigitalWrite 25 HIGH, Poll 800,
       Fprintf_stderr ''Error occurred scanning: '' 0, DigitalWrite 25 LOW]) \<and>
   main [''scan''] (w6\<lparr>setup_errno := 25\<rparr>) =
     (Returns (- 1),
      [Open_device, Ioctl_EVIOCGRAB, WiringPiSetupGpio, PinMode_OUTPUT 25,
       DigitalWrite 25 HIGH, Poll 800,
       Fprintf_stderr ''Error occurred scanning: '' 25, DigitalWrite 25 LOW])"
  by code_simp

text \<open>
  C6, as the code has it. What \<^verbatim>\<open>main\<close> returns is what \<^verbatim>\<open>scan\<close> returns, and that is 0 or
  \<open>-1\<close>: \<open>-1\<close>, whatever \<^verbatim>\<open>errno\<close> is, exactly when an error was reported on the
  diagnostic stream, and 0 otherwise. In particular it is 0 when every try times out and
  when a code is read at the first try.
\<close>

theorem exit_status:
  "(fst (main argv w) = Returns r \<longrightarrow>
      (r = 0 \<and> \<not> reported (snd (main argv w))) \<or> (r = - 1 \<and> reported (snd (main argv w)))) \<and>
   (never_ready (poll_answers w) \<longrightarrow> fst (scan tries w) = Returns 0) \<and>
   (0 < tries \<and> poll_answers w = Poll_ret p e # ps \<and> 0 < p \<and>
    read_loop (poll (digitalWrite SCANPIN HIGH (init_state w))) = (Exited, st2) \<and>
    readstatus st2 = sizeof_keyevent \<longrightarrow> fst (scan tries w) = Returns 0)"
proof -
  have a: "(r = 0 \<and> \<not> reported (snd (main argv w))) \<or> (r = - 1 \<and> reported (snd (main argv w)))"
    if m: "fst (main argv w) = Returns r"
  proof -
    from main_is_scan [OF m] obtain n where n: "main argv w = finish (scan n w)" by blast
    have "\<not> reported (trace (init_state w))" by (simp add: init_state_def setup_trace_def reported_def is_error_report_def)
    from scan_loop_reported [OF this, of n r] m n show ?thesis
      by (simp add: finish_def scan_def)
  qed
  have b: "fst (scan tries w) = Returns 0" if "never_ready (poll_answers w)"
  proof -
    have "err (init_state w) = 0" "never_ready (polls (init_state w))"
      using that by (simp_all add: init_state_def)
    from scan_loop_timeouts [OF this, of tries] show ?thesis by (simp add: scan_def)
  qed
  have c: "fst (scan tries w) = Returns 0"
    if "0 < tries" and pa: "poll_answers w = Poll_ret p e # ps" and "0 < p"
      and rl: "read_loop (poll (digitalWrite SCANPIN HIGH (init_state w))) = (Exited, st2)"
      and rs: "readstatus st2 = sizeof_keyevent"
  proof -
    let ?st0 = "init_state w"
    have i: "trycount ?st0 < tries" "err ?st0 = 0" "polls ?st0 = Poll_ret p e # ps"
      using that by (simp_all add: init_state_def)
    have e1: "err (poll (digitalWrite SCANPIN HIGH ?st0)) \<noteq> 0"
      using i(3) \<open>0 < p\<close> by (simp add: poll_def digitalWrite_def)
    have ci: "chars_inv (poll (digitalWrite SCANPIN HIGH ?st0))"
      using init_state_inv [of w]
      by (simp add: chars_inv_def buffer_inv_def accumulated_def digitalWrite_def)
        (simp add: init_state_def)
    from read_loop_printed [OF ci rl] rs
    have cs: "c_string (code st2) = Some (accumulated st2)" by (simp add: sizeof_keyevent_def)
    have ns: "\<not> size_t_of_int (readstatus st2) < sizeof_keyevent"
      using rs full_read_not_short by simp
    from scan_loop_printed [OF i(1,2) e1 rl ns cs] show ?thesis by (simp add: scan_def)
  qed
  from a b c show ?thesis by blast
qed

theorem exit_status_witness:
  "fst (main [''scan''] w6) = Returns (- 1) \<and> reported (snd (main [''scan''] w6)) \<and>
   never_ready (poll_answers (example_world garbage [] [])) \<and>
   fst (scan 2 (example_world garbage [] [])) = Returns 0 \<and>
   fst (read_loop (poll (digitalWrite SCANPIN HIGH (init_state w3)))) = Exited \<and>
   fst (scan 1 w3) = Returns 0"
proof -
  let ?q = "example_world garbage [] []"
  let ?r = "read_loop (poll (digitalWrite SCANPIN HIGH (init_state w3)))"
  have m: "fst (main [''scan''] w6) = Returns (- 1)" by code_simp
  have n: "never_ready (poll_answers ?q)" by (simp add: example_world_def never_ready_def)
  have f: "fst ?r = Exited" by code_simp
  then have rl: "?r = (Exited, snd ?r)" by (simp add: prod_eq_iff)
  have rs: "readstatus (snd ?r) = sizeof_keyevent" by code_simp
  have pa: "poll_answers w3 = Poll_ret 1 0 # []" by (simp add: w3_def example_world_def)
  from exit_status [of "[''scan'']" w6 "- 1" 2 1 0 "[]" "snd ?r"] m
  have 1: "reported (snd (main [''scan''] w6))" by simp
  from exit_status [of "[]" ?q 0 2 1 0 "[]" "snd ?r"] n
  have 2: "fst (scan 2 ?q) = Returns 0" by simp
  from exit_status [of "[]" w3 0 1 1 0 "[]" "snd ?r"] pa rl rs
  have 3: "fst (scan 1 w3) = Returns 0" by simp
  from m 1 n 2 f 3 show ?thesis by simp
qed

end
